theory Spec2Isabelle
  imports Complex_Main "HOL-Library.Product_Lexorder"
begin

section \<open>Strings\<close>

text \<open>
  Python \<open>str\<close> and SQL \<open>VARCHAR\<close> values are modelled as \<open>string\<close> (a list of
  8-bit characters), so the character classes below are the ASCII part of Python's
  Unicode classes. Numbers that the code holds as floating point are modelled as exact
  rationals: the theorems are about the arithmetic the code writes down, not about
  binary rounding.
\<close>

definition is_space :: "char \<Rightarrow> bool" where
  \<comment> \<open>\<open>str.isspace\<close> and the regex class \<open>\s\<close> on ASCII: tab, LF, VT, FF, CR,
      the separators 0x1C..0x1F and the blank.\<close>
  "is_space c \<longleftrightarrow> c \<in> set [CHR 0x09, CHR 0x0A, CHR 0x0B, CHR 0x0C, CHR 0x0D,
                              CHR 0x1C, CHR 0x1D, CHR 0x1E, CHR 0x1F, CHR '' '']"

definition is_digit :: "char \<Rightarrow> bool" where
  \<comment> \<open>the regex class \<open>\d\<close> on ASCII\<close>
  "is_digit c \<longleftrightarrow> c \<in> set ''0123456789''"

definition is_word :: "char \<Rightarrow> bool" where
  \<comment> \<open>the regex class \<open>\w\<close> on ASCII: letters, digits and the underscore\<close>
  "is_word c \<longleftrightarrow> c \<in> set ''abcdefghijklmnopqrstuvwxyzABCDEFGHIJKLMNOPQRSTUVWXYZ0123456789_''"

definition py_strip :: "string \<Rightarrow> string" where
  \<comment> \<open>\<open>s.strip()\<close>: leading and trailing whitespace removed\<close>
  "py_strip s = rev (dropWhile is_space (rev (dropWhile is_space s)))"

definition digit_val :: "char \<Rightarrow> nat" where
  "digit_val c = of_char c - 48"

definition digits_val :: "string \<Rightarrow> nat" where
  \<comment> \<open>the value of a string of decimal digits\<close>
  "digits_val ds = foldl (\<lambda>a c. 10 * a + digit_val c) 0 ds"

section \<open>Rating normalizer: \<open>clean_and_store_data\<close>\<close>

text \<open>
  \<open>clean_and_store_data.py\<close>, lines 36-51, on one row of the frame. A row gives each
  column name its cell; a cell is \<open>None\<close> (null, NaN), a text or a number.
  \<^verbatim>\<open>
  df = df.replace([np.nan, 'NAN', 'nan', 'NaN', '', None], None)
  df.columns = [col.upper() for col in df.columns]
  if "OVERALL_RATING" in df.columns:
      df["OVERALL_RATING"] = pd.to_numeric(df["OVERALL_RATING"], errors="coerce")
  if "RMP_RATING" in df.columns: ...
  if "DIFFICULTY" in df.columns: ...
  if "WOULD TAKE AGAIN" in df.columns:
      df["WOULD TAKE AGAIN"] = pd.to_numeric(df["WOULD TAKE AGAIN"], errors="coerce")
      df["WOULD TAKE AGAIN"] = df["WOULD TAKE AGAIN"].apply(
          lambda x: x / 100 if pd.notna(x) and x > 1 else x)
  \<close>
\<close>

definition unsigned_decimal :: "string \<Rightarrow> rat option" where
  \<comment> \<open>digits, optionally followed by a point and more digits; a leading point with
      digits after it is accepted too, as Python's float syntax does\<close>
  "unsigned_decimal s =
     (let ip = takeWhile is_digit s; r = dropWhile is_digit s in
      if r = [] then (if ip = [] then None else Some (of_nat (digits_val ip)))
      else if hd r = CHR ''.'' then
        (let fp = tl r in
         if \<not> list_all is_digit fp \<or> (ip = [] \<and> fp = []) then None
         else Some (of_nat (digits_val ip) + of_nat (digits_val fp) / 10 ^ length fp))
      else None)"

definition to_numeric :: "string \<Rightarrow> rat option" where
  \<comment> \<open>\<open>pd.to_numeric(..., errors="coerce")\<close> on one string cell, for plain decimal
      literals: surrounding whitespace, an optional sign, digits with an optional
      fractional part. Every other text is coerced to NaN, that is \<open>None\<close>.\<close>
  "to_numeric raw =
     (let s = py_strip raw in
      case s of
        [] \<Rightarrow> None
      | c # cs \<Rightarrow>
          if c = CHR ''-'' then map_option uminus (unsigned_decimal cs)
          else if c = CHR ''+'' then unsigned_decimal cs
          else unsigned_decimal s)"

datatype cell = Text string | Number rat

type_synonym frame_row = "(string \<times> cell option) list"

definition py_upper :: "string \<Rightarrow> string" where
  "py_upper s =
     map (\<lambda>c. if c \<in> set ''abcdefghijklmnopqrstuvwxyz''
               then char_of (of_char c - (32 :: nat)) else c) s"

definition replace_null_like :: "cell option \<Rightarrow> cell option" where
  \<comment> \<open>\<open>df.replace([np.nan, 'NAN', 'nan', 'NaN', '', None], None)\<close> on one cell\<close>
  "replace_null_like x =
     (case x of
        Some (Text s) \<Rightarrow> if s \<in> set [''NAN'', ''nan'', ''NaN'', []] then None else x
      | _ \<Rightarrow> x)"

definition to_numeric_cell :: "cell option \<Rightarrow> rat option" where
  \<comment> \<open>\<open>pd.to_numeric(..., errors="coerce")\<close> on one cell of a column\<close>
  "to_numeric_cell x =
     (case x of None \<Rightarrow> None | Some (Number v) \<Rightarrow> Some v | Some (Text s) \<Rightarrow> to_numeric s)"

definition wta_rescale :: "rat option \<Rightarrow> rat option" where
  \<comment> \<open>\<open>lambda x: x / 100 if pd.notna(x) and x > 1 else x\<close>\<close>
  "wta_rescale x = (case x of None \<Rightarrow> None | Some v \<Rightarrow> if v > 1 then Some (v / 100) else Some v)"

definition on_column ::
  "string \<Rightarrow> (cell option \<Rightarrow> cell option) \<Rightarrow> frame_row \<Rightarrow> frame_row" where
  \<comment> \<open>\<open>if name in df.columns: df[name] = f(df[name])\<close>\<close>
  "on_column name f row =
     (if name \<in> set (map fst row)
      then map (\<lambda>(c, x). if c = name then (c, f x) else (c, x)) row
      else row)"

definition clean_and_store_data :: "frame_row \<Rightarrow> frame_row" where
  "clean_and_store_data row =
     (let df = map (\<lambda>(c, x). (c, replace_null_like x)) row;
          df = map (\<lambda>(c, x). (py_upper c, x)) df;
          df = on_column ''OVERALL_RATING'' (\<lambda>x. map_option Number (to_numeric_cell x)) df;
          df = on_column ''RMP_RATING'' (\<lambda>x. map_option Number (to_numeric_cell x)) df;
          df = on_column ''DIFFICULTY'' (\<lambda>x. map_option Number (to_numeric_cell x)) df;
          df = on_column ''WOULD TAKE AGAIN''
                 (\<lambda>x. map_option Number (wta_rescale (to_numeric_cell x))) df
      in df)"

section \<open>Regular expressions of the field extractor\<close>

text \<open>
  The patterns of \<open>process_pdfs.py\<close> are modelled one by one as backtracking
  matchers. A matcher at a position returns the candidate matches in the order in which
  Python's \<open>re\<close> tries them (a greedy quantifier longest first, a lazy one shortest
  first); the match is the first candidate. \<open>re.search\<close> takes the leftmost position
  at which the matcher succeeds.
\<close>

fun search :: "(string \<Rightarrow> 'a option) \<Rightarrow> string \<Rightarrow> 'a option" where
  "search m [] = m []"
| "search m (c # cs) = (case m (c # cs) of Some r \<Rightarrow> Some r | None \<Rightarrow> search m cs)"

fun strip_prefix :: "string \<Rightarrow> string \<Rightarrow> string option" where
  \<comment> \<open>a literal at the start of the text: the rest of the text after it\<close>
  "strip_prefix [] s = Some s"
| "strip_prefix (p # ps) [] = None"
| "strip_prefix (p # ps) (c # cs) = (if p = c then strip_prefix ps cs else None)"

definition first_of :: "'a list \<Rightarrow> 'a option" where
  "first_of xs = (case xs of [] \<Rightarrow> None | x # _ \<Rightarrow> Some x)"

definition plus_splits :: "(char \<Rightarrow> bool) \<Rightarrow> string \<Rightarrow> (string \<times> string) list" where
  \<comment> \<open>\<open>[class]+\<close>, greedy: the prefixes of one or more characters of the class,
      longest first, each with the rest of the text\<close>
  "plus_splits P s =
     map (\<lambda>k. (take k s, drop k s)) (rev [1 ..< Suc (length (takeWhile P s))])"

definition star_splits :: "(char \<Rightarrow> bool) \<Rightarrow> string \<Rightarrow> (string \<times> string) list" where
  \<comment> \<open>\<open>[class]*\<close>, greedy\<close>
  "star_splits P s =
     map (\<lambda>k. (take k s, drop k s)) (rev [0 ..< Suc (length (takeWhile P s))])"

fun lazy_until :: "string \<Rightarrow> string \<Rightarrow> (string \<times> string) list" where
  \<comment> \<open>\<open>(.*?)lit\<close>: the captured text (no newline in it), shortest first, with the
      rest of the text after the literal\<close>
  "lazy_until lit [] = (case strip_prefix lit [] of Some r \<Rightarrow> [([], r)] | None \<Rightarrow> [])"
| "lazy_until lit (c # cs) =
     (case strip_prefix lit (c # cs) of Some r \<Rightarrow> [([], r)] | None \<Rightarrow> []) @
     (if c = CHR 0x0A then [] else map (\<lambda>(g, r). (c # g, r)) (lazy_until lit cs))"

definition is_sep :: "char \<Rightarrow> bool" where
  \<comment> \<open>the class \<open>[._\s]\<close>\<close>
  "is_sep c \<longleftrightarrow> c = CHR ''.'' \<or> c = CHR ''_'' \<or> is_space c"

definition prof_at :: "string \<Rightarrow> string option" where
  \<comment> \<open>\<open>\$\$(.*?)\$\$\<close> at a position: group 1\<close>
  "prof_at s =
     (case strip_prefix ''$$'' s of
        None \<Rightarrow> None
      | Some r \<Rightarrow> first_of (map fst (lazy_until ''$$'' r)))"

definition sem_m :: "string \<Rightarrow> (string \<times> string) option" where
  \<comment> \<open>\<open>^(SP|FL)(\d{4})\<close>: groups 1 and 2; \<open>^\<close> allows the start of the text only\<close>
  "sem_m s =
     first_of
       [(code, take 4 r).
          code \<leftarrow> [''SP'', ''FL''],
          r \<leftarrow> (case strip_prefix code s of Some r \<Rightarrow> [r] | None \<Rightarrow> []),
          4 \<le> length r \<and> list_all is_digit (take 4 r)]"

definition crs_at :: "string \<Rightarrow> (string \<times> string) option" where
  \<comment> \<open>\<open>(L24|E81)[._\s]+(\w+)[._\s]+(\d+)\<close> at a position: groups 2 and 3\<close>
  "crs_at s =
     first_of
       [(w, d).
          anchor \<leftarrow> [''L24'', ''E81''],
          r0 \<leftarrow> (case strip_prefix anchor s of Some r \<Rightarrow> [r] | None \<Rightarrow> []),
          (s1, r1) \<leftarrow> plus_splits is_sep r0,
          (w, r2) \<leftarrow> plus_splits is_word r1,
          (s2, r3) \<leftarrow> plus_splits is_sep r2,
          (d, r4) \<leftarrow> plus_splits is_digit r3]"

definition rmp_at :: "string \<Rightarrow> string option" where
  \<comment> \<open>\<open>RMP[-_]?(\d+)\<close> with \<open>re.IGNORECASE\<close> at a position: group 1\<close>
  "rmp_at s =
     (case s of
        a # b # c # r \<Rightarrow>
          if a \<in> set ''Rr'' \<and> b \<in> set ''Mm'' \<and> c \<in> set ''Pp'' then
            first_of
              [d.
                 r1 \<leftarrow> (case r of [] \<Rightarrow> [] | x # xs \<Rightarrow> if x \<in> set ''-_'' then [xs] else []) @ [r],
                 (d, r2) \<leftarrow> plus_splits is_digit r1]
          else None
      | _ \<Rightarrow> None)"

definition name_at :: "string \<Rightarrow> string option" where
  \<comment> \<open>\<open>Reports for .*?- (.*?)\(\<close> at a position: group 1\<close>
  "name_at s =
     (case strip_prefix ''Reports for '' s of
        None \<Rightarrow> None
      | Some r \<Rightarrow>
          first_of
            [g2.
               (g1, r1) \<leftarrow> lazy_until ''- '' r,
               (g2, r2) \<leftarrow> lazy_until ''('' r1])"

definition rate_at :: "string \<Rightarrow> string option" where
  \<comment> \<open>\<open>Overall Rating:\s*(\d+\.\d+)\<close> at a position: group 1\<close>
  "rate_at s =
     (case strip_prefix ''Overall Rating:'' s of
        None \<Rightarrow> None
      | Some r \<Rightarrow>
          first_of
            [d1 @ ''.'' @ d2.
               (ws, r1) \<leftarrow> star_splits is_space r,
               (d1, r2) \<leftarrow> plus_splits is_digit r1,
               r3 \<leftarrow> (case r2 of [] \<Rightarrow> [] | x # xs \<Rightarrow> if x = CHR ''.'' then [xs] else []),
               (d2, r4) \<leftarrow> plus_splits is_digit r3])"

section \<open>Filename/text field extractor\<close>

datatype py_error = ValueError | PdfException

definition py_int :: "string \<Rightarrow> py_error + int" where
  \<comment> \<open>\<open>int(s)\<close>: surrounding whitespace, an optional sign, decimal digits; anything
      else raises \<open>ValueError\<close>\<close>
  "py_int raw =
     (let digits = (\<lambda>ds. if ds \<noteq> [] \<and> list_all is_digit ds
                          then Inr (int (digits_val ds)) else Inl ValueError);
          s = py_strip raw in
      case s of
        [] \<Rightarrow> Inl ValueError
      | c # cs \<Rightarrow>
          if c = CHR ''-'' then map_sum id uminus (digits cs)
          else if c = CHR ''+'' then digits cs
          else digits s)"

definition py_float :: "string \<Rightarrow> py_error + rat" where
  \<comment> \<open>\<open>float(s)\<close> on decimal literals; anything else raises \<open>ValueError\<close>\<close>
  "py_float raw = (case to_numeric raw of None \<Rightarrow> Inl ValueError | Some v \<Rightarrow> Inr v)"

record course_fragment =
  filename :: string
  professor :: string
  semester :: string
  course_code :: string
  section_no :: string  \<comment> \<open>the field \<open>section\<close> (a reserved word here)\<close>
  course_name :: string
  overall_rating :: "rat option"
  rmp_id :: "int option"

definition pdf_text :: "py_error + string option list \<Rightarrow> string" where
  \<comment> \<open>lines 38-48. The bytes enter only through \<open>pdfplumber\<close>: the argument is what
      reading them gives, an exception or, page by page, the result of
      \<open>extract_text()\<close> (a text or \<open>None\<close>). An exception leaves the text empty.\<close>
  "pdf_text pdf =
     (case pdf of
        Inl e \<Rightarrow> []
      | Inr pages \<Rightarrow>
          concat (map (\<lambda>page_text. case page_text of
                                     None \<Rightarrow> []
                                   | Some t \<Rightarrow> if t = [] then [] else t @ '' '') pages))"

definition extract_course_info_from_bytes ::
  "py_error + string option list \<Rightarrow> string \<Rightarrow> py_error + course_fragment" where
  "extract_course_info_from_bytes pdf filename0 =
     (let fname = py_strip filename0;
          prof = (case search prof_at fname of Some g \<Rightarrow> g | None \<Rightarrow> ''Unknown'');
          sem = (case sem_m fname of Some (g1, g2) \<Rightarrow> g1 @ '' '' @ g2 | None \<Rightarrow> ''Unknown'');
          crs = (case search crs_at fname of Some (g2, g3) \<Rightarrow> (g2, g3)
                                          | None \<Rightarrow> (''Unknown'', ''Unknown''))
      in case (case search rmp_at fname of Some g \<Rightarrow> map_sum id Some (py_int g)
                                         | None \<Rightarrow> Inr None) of
           Inl e \<Rightarrow> Inl e
         | Inr rid \<Rightarrow>
             (let text = pdf_text pdf;
                  cname = (case search name_at text of Some g \<Rightarrow> py_strip g
                                                     | None \<Rightarrow> ''Unknown'')
              in case (case search rate_at text of Some g \<Rightarrow> map_sum id Some (py_float g)
                                                 | None \<Rightarrow> Inr None) of
                   Inl e \<Rightarrow> Inl e
                 | Inr rating \<Rightarrow>
                     Inr \<lparr>filename = fname, professor = prof, semester = sem,
                          course_code = fst crs, section_no = snd crs, course_name = cname,
                          overall_rating = rating, rmp_id = rid\<rparr>))"

definition season_year_prefix :: "string \<Rightarrow> bool" where
  \<comment> \<open>the text starts with a season code (\<open>SP\<close> or \<open>FL\<close>) immediately followed by
      four digits\<close>
  "season_year_prefix s \<longleftrightarrow>
     (take 2 s = ''SP'' \<or> take 2 s = ''FL'') \<and> 6 \<le> length s \<and> list_all is_digit (take 4 (drop 2 s))"

section \<open>Rating page field extractor\<close>

text \<open>
  \<open>scrape_professor_ratings.py\<close>, \<open>scrape_professor_rating\<close>. The fetched page
  enters through \<open>requests\<close> and \<open>BeautifulSoup\<close>: the model takes what they give,
  an exception or the status code with the texts of the nodes that the three
  \<open>find\<close>/\<open>find_all\<close> calls return.
\<close>

record rating_page =
  rating_element :: "string option"
  feedback_numbers :: "string list"
  tag_elements :: "string list"

record rating_info =
  info_rmp_id :: string
  scraped_overall_rating :: "string option"
  would_take_again :: "string option"
  difficulty :: "string option"
  tags :: "string set"

definition py_lower :: "string \<Rightarrow> string" where
  "py_lower s =
     map (\<lambda>c. if c \<in> set ''ABCDEFGHIJKLMNOPQRSTUVWXYZ''
               then char_of (of_char c + (32 :: nat)) else c) s"

definition scrape_professor_rating ::
  "string \<Rightarrow> py_error + int \<times> rating_page \<Rightarrow> rating_info option" where
  "scrape_professor_rating rid response =
     (if rid = [] then None
      else case response of
        Inl e \<Rightarrow> None
      | Inr (status_code, soup) \<Rightarrow>
          if status_code \<noteq> 200 then None
          else
            (let info0 = \<lparr>info_rmp_id = rid, scraped_overall_rating = None,
                           would_take_again = None, difficulty = None, tags = {}\<rparr>;
                 info1 = (case rating_element soup of
                            Some t \<Rightarrow> info0\<lparr>scraped_overall_rating := Some (py_strip t)\<rparr>
                          | None \<Rightarrow> info0);
                 fb = feedback_numbers soup;
                 info2 = (if length fb \<ge> 2 then
                            (let wt_again = py_strip (fb ! 0);
                                 diff = py_strip (fb ! 1);
                                 wt_again' = (if CHR ''%'' \<in> set wt_again
                                              then filter (\<lambda>c. c \<noteq> CHR ''%'') wt_again
                                              else wt_again)
                             in info1\<lparr>would_take_again := Some wt_again',
                                      difficulty := Some diff\<rparr>)
                          else info1);
                 info3 = (if tag_elements soup \<noteq> []
                          then info2\<lparr>tags := set (map (\<lambda>t. py_strip (py_lower t))
                                                      (tag_elements soup))\<rparr>
                          else info2)
             in Some info3))"

section \<open>Cross-source merger\<close>

text \<open>
  \<open>scrape_professor_ratings.py\<close>, \<open>scrape_professor_ratings_table\<close>, lines 124-137.
  The rows of the input table are course fragments; \<open>input.csv\<close> is a list of rows
  with the columns \<open>course_code\<close> and \<open>rmp_id\<close>.
\<close>

record csv_row =
  csv_course_code :: string
  csv_rmp_id :: "int option"

definition combine_first :: "'a option \<Rightarrow> 'a option \<Rightarrow> 'a option" where
  \<comment> \<open>\<open>a.combine_first(b)\<close> on one cell: the value of \<open>a\<close>, and that of \<open>b\<close> where
      \<open>a\<close> is null\<close>
  "combine_first a b = (case a of Some v \<Rightarrow> Some v | None \<Rightarrow> b)"

definition merge_left :: "course_fragment list \<Rightarrow> csv_row list \<Rightarrow> (course_fragment \<times> int option) list" where
  \<comment> \<open>\<open>pd.merge(df, csv_df[['course_code', 'rmp_id']], on='course_code', how='left',
      suffixes=("", "_csv"))\<close>: every left row, in order, once with the \<open>rmp_id_csv\<close>
      of each right row of equal course code, or once with null when there is none\<close>
  "merge_left df csv =
     concat (map (\<lambda>f. case filter (\<lambda>r. csv_course_code r = course_code f) csv of
                          [] \<Rightarrow> [(f, None)]
                        | ms \<Rightarrow> map (\<lambda>r. (f, csv_rmp_id r)) ms) df)"

definition merge_rmp_ids :: "course_fragment list \<Rightarrow> csv_row list \<Rightarrow> course_fragment list" where
  "merge_rmp_ids df csv_df =
     (if csv_df = [] then df
      else
        (let df1 = map (\<lambda>f. f\<lparr>course_code := py_strip (course_code f)\<rparr>) df;
             csv1 = map (\<lambda>r. r\<lparr>csv_course_code := py_strip (csv_course_code r)\<rparr>) csv_df
         in map (\<lambda>(f, rmp_id_csv). f\<lparr>rmp_id := combine_first rmp_id_csv (rmp_id f)\<rparr>)
                (merge_left df1 csv1)))"

section \<open>Standardization query: numeric columns\<close>

text \<open>
  \<open>app_data_pipeline.py\<close>, \<open>standardization_sql\<close>. A SQL value is \<open>None\<close> for
  NULL. \<open>TO_NUMBER\<close> with no precision and scale converts to \<open>NUMBER(38,0)\<close>: a
  number with no fractional digits, rounded half away from zero; NULL stays NULL.
\<close>

definition round_half_away :: "rat \<Rightarrow> rat" where
  "round_half_away x = (if 0 \<le> x then of_int \<lfloor>x + 1 / 2\<rfloor> else - of_int \<lfloor>- x + 1 / 2\<rfloor>)"

definition TO_NUMBER :: "rat option \<Rightarrow> rat option" where
  "TO_NUMBER x = map_option round_half_away x"

definition WOULD_TAKE_AGAIN_NUM :: "rat option \<Rightarrow> rat option" where
  \<comment> \<open>lines 143-146:
      \<open>CASE WHEN TO_NUMBER(W) > 1 THEN TO_NUMBER(W)/100 ELSE TO_NUMBER(W) END\<close>;
      a comparison with NULL is not true, so the ELSE branch yields NULL\<close>
  "WOULD_TAKE_AGAIN_NUM w =
     (case TO_NUMBER w of
        None \<Rightarrow> None
      | Some v \<Rightarrow> if v > 1 then Some (v / 100) else Some v)"

definition null_or_unit :: "rat option \<Rightarrow> bool" where
  \<comment> \<open>null, or a number in the closed interval from 0 to 1\<close>
  "null_or_unit x = (case x of None \<Rightarrow> True | Some y \<Rightarrow> 0 \<le> y \<and> y \<le> 1)"

definition NORMALIZED_RMP_RATING :: "rat option \<Rightarrow> rat option" where
  \<comment> \<open>lines 175-178, on the column \<open>SCRAPED_OVERALL_RATING_NUM\<close>:
      \<open>CASE WHEN r IS NOT NULL THEN (r - 1) * (6/4) + 1 ELSE NULL END\<close>\<close>
  "NORMALIZED_RMP_RATING r =
     (case r of None \<Rightarrow> None | Some v \<Rightarrow> Some ((v - 1) * (6 / 4) + 1))"

section \<open>Standardization query: duplicate resolution\<close>

text \<open>
  The rows of \<open>MY_WASHU_COURSES_WITH_RATINGS\<close>. \<open>TRIM\<close> with one argument removes
  blanks on both sides; \<open>SPLIT_PART(s, ' ', -1)\<close> is the last of the parts of \<open>s\<close>
  between single blanks. Both give NULL on NULL.
\<close>

record enriched_row =
  FILENAME :: "string option"
  PROFESSOR :: "string option"
  SEMESTER :: "string option"
  COURSE_CODE :: "string option"
  SECTION :: "string option"
  COURSE_NAME :: "string option"
  OVERALL_RATING :: "rat option"
  RMP_ID :: "int option"
  SCRAPED_OVERALL_RATING :: "rat option"
  WOULD_TAKE_AGAIN :: "rat option"
  DIFFICULTY :: "rat option"
  TAGS :: "string option"

record standardized_row =
  PROFESSOR_NAME :: "string option"
  FULL_PROFESSOR_NAME :: "string option"
  STD_COURSE_CODE :: "string option"
  STD_COURSE_NAME :: "string option"
  STD_SEMESTER :: "string option"
  STD_SECTION :: "string option"
  STD_RMP_ID :: "int option"
  STD_OVERALL_RATING :: "rat option"
  STD_SCRAPED_OVERALL_RATING :: "rat option"
  STD_WOULD_TAKE_AGAIN :: "rat option"
  STD_DIFFICULTY :: "rat option"
  STD_TAGS :: "string option"
  STD_NORMALIZED_RMP_RATING :: "rat option"

definition TRIM :: "string option \<Rightarrow> string option" where
  "TRIM = map_option (\<lambda>s. rev (dropWhile (\<lambda>c. c = CHR '' '')
                                 (rev (dropWhile (\<lambda>c. c = CHR '' '') s))))"

definition SPLIT_PART_LAST :: "string option \<Rightarrow> string option" where
  "SPLIT_PART_LAST = map_option (\<lambda>s. rev (takeWhile (\<lambda>c. c \<noteq> CHR '' '') (rev s)))"

definition partition_key ::
  "enriched_row \<Rightarrow> string option \<times> string option \<times> string option \<times> string option" where
  \<comment> \<open>the \<open>PARTITION BY\<close> list, lines 150-154; NULLs fall into one partition\<close>
  "partition_key r =
     (SPLIT_PART_LAST (TRIM (PROFESSOR r)), TRIM (COURSE_CODE r), TRIM (SEMESTER r),
      TRIM (SECTION r))"

definition order_key :: "enriched_row \<Rightarrow> nat \<times> nat \<times> nat" where
  \<comment> \<open>the \<open>ORDER BY\<close> list, lines 155-158, compared lexicographically\<close>
  "order_key r =
     (if TO_NUMBER (OVERALL_RATING r) \<noteq> None then 0 else 1,
      if TO_NUMBER (SCRAPED_OVERALL_RATING r) \<noteq> None then 0 else 1,
      if TRIM (COURSE_NAME r) \<noteq> None then 0 else 1)"

definition ROW_NUMBER :: "enriched_row list \<Rightarrow> enriched_row \<Rightarrow> enriched_row list \<Rightarrow> nat" where
  \<comment> \<open>the number of a row within its partition: one more than the number of rows of
      the partition that are ordered before it. Rows that tie in \<open>ORDER BY\<close> are
      numbered in the order in which the engine enumerates them, here the order of the
      list: \<open>earlier\<close> holds the rows before this one, \<open>later\<close> those after it.\<close>
  "ROW_NUMBER earlier r later =
     Suc (length (filter (\<lambda>x. partition_key x = partition_key r \<and> order_key x \<le> order_key r) earlier)
        + length (filter (\<lambda>x. partition_key x = partition_key r \<and> order_key x < order_key r) later))"

fun ranked :: "enriched_row list \<Rightarrow> enriched_row list \<Rightarrow> (enriched_row \<times> nat) list" where
  "ranked earlier [] = []"
| "ranked earlier (r # later) = (r, ROW_NUMBER earlier r later) # ranked (earlier @ [r]) later"

definition normalized_data :: "enriched_row list \<Rightarrow> (enriched_row \<times> nat) list" where
  \<comment> \<open>the rows of the table, each with its \<open>ROW_RANK\<close>; the other columns of the
      common table expression are functions of the row alone, see \<open>final_select\<close>\<close>
  "normalized_data rows = ranked [] rows"

definition resolver :: "enriched_row list \<Rightarrow> enriched_row list" where
  \<comment> \<open>\<open>WHERE ROW_RANK = 1\<close>: the rows of the table that survive\<close>
  "resolver rows = map fst (filter (\<lambda>(r, row_rank). row_rank = 1) (normalized_data rows))"

definition resolver_from :: "enriched_row list \<Rightarrow> enriched_row list \<Rightarrow> enriched_row list" where
  \<comment> \<open>the surviving rows among \<open>rows\<close> when the rows \<open>earlier\<close> precede them in the
      table; \<open>resolver\<close> is the case of no earlier rows\<close>
  "resolver_from earlier rows =
     map fst (filter (\<lambda>(r, row_rank). row_rank = 1) (ranked earlier rows))"

definition final_select :: "enriched_row \<Rightarrow> standardized_row" where
  \<comment> \<open>the columns of the result, lines 133-148 and 162-178\<close>
  "final_select r =
     \<lparr>PROFESSOR_NAME = SPLIT_PART_LAST (TRIM (PROFESSOR r)),
      FULL_PROFESSOR_NAME = TRIM (PROFESSOR r),
      STD_COURSE_CODE = TRIM (COURSE_CODE r),
      STD_COURSE_NAME = TRIM (COURSE_NAME r),
      STD_SEMESTER = TRIM (SEMESTER r),
      STD_SECTION = TRIM (SECTION r),
      STD_RMP_ID = RMP_ID r,
      STD_OVERALL_RATING = TO_NUMBER (OVERALL_RATING r),
      STD_SCRAPED_OVERALL_RATING = TO_NUMBER (SCRAPED_OVERALL_RATING r),
      STD_WOULD_TAKE_AGAIN = WOULD_TAKE_AGAIN_NUM (WOULD_TAKE_AGAIN r),
      STD_DIFFICULTY = TO_NUMBER (DIFFICULTY r),
      STD_TAGS = TRIM (TAGS r),
      STD_NORMALIZED_RMP_RATING =
        NORMALIZED_RMP_RATING (TO_NUMBER (SCRAPED_OVERALL_RATING r))\<rparr>"

definition standardization :: "enriched_row list \<Rightarrow> standardized_row list" where
  \<comment> \<open>the table \<open>WASHU_COURSES_STANDARDIZED\<close>\<close>
  "standardization rows = map final_select (resolver rows)"

definition identity_key ::
  "standardized_row \<Rightarrow> string option \<times> string option \<times> string option \<times> string option" where
  "identity_key c = (PROFESSOR_NAME c, STD_COURSE_CODE c, STD_SEMESTER c, STD_SECTION c)"

text \<open>
  The identity key in the words of the specification, to be compared with
  \<open>partition_key\<close>: whitespace is every character of \<open>is_space\<close>.
\<close>

definition last_whitespace_token :: "string \<Rightarrow> string" where
  "last_whitespace_token s = rev (takeWhile (\<lambda>c. \<not> is_space c) (rev s))"

definition spec_identity_key ::
  "enriched_row \<Rightarrow> string option \<times> string option \<times> string option \<times> string option" where
  "spec_identity_key r =
     (map_option (\<lambda>s. last_whitespace_token (py_strip s)) (PROFESSOR r),
      map_option py_strip (COURSE_CODE r), map_option py_strip (SEMESTER r),
      map_option py_strip (SECTION r))"

definition blank_only :: "string option \<Rightarrow> bool" where
  \<comment> \<open>a field in which the blank is the only whitespace\<close>
  "blank_only x =
     (case x of None \<Rightarrow> True | Some s \<Rightarrow> list_all (\<lambda>c. is_space c \<longrightarrow> c = CHR '' '') s)"

text \<open>Rows for the scenarios of the specification, key \<open>(Doe, CS101, SP 2025, 1)\<close>.\<close>

definition example_row :: "string \<Rightarrow> rat option \<Rightarrow> enriched_row" where
  "example_row prof rating =
     \<lparr>FILENAME = Some ''a.pdf'', PROFESSOR = Some prof, SEMESTER = Some ''SP 2025'',
      COURSE_CODE = Some ''CS101'', SECTION = Some ''1'', COURSE_NAME = Some ''Intro'',
      OVERALL_RATING = rating, RMP_ID = None, SCRAPED_OVERALL_RATING = None,
      WOULD_TAKE_AGAIN = None, DIFFICULTY = None, TAGS = None\<rparr>"

definition example_fragment :: "string \<Rightarrow> int option \<Rightarrow> course_fragment" where
  "example_fragment code rid =
     \<lparr>filename = ''a.pdf'', professor = ''Jane Doe'', semester = ''SP 2025'',
      course_code = code, section_no = ''1'', course_name = ''Intro'',
      overall_rating = None, rmp_id = rid\<rparr>"

section \<open>Properties of the rating normalizer and the scale transformer\<close>

lemmas parse_defs = to_numeric_def py_strip_def is_space_def unsigned_decimal_def is_digit_def
  digits_val_def digit_val_def

lemma round_half_away_of_int: "round_half_away (of_int n) = of_int n"
proof -
  have "\<lfloor>(of_int n :: rat) + 1 / 2\<rfloor> = n" by linarith
  moreover have "\<lfloor>- (of_int n :: rat) + 1 / 2\<rfloor> = - n" by linarith
  ultimately show ?thesis by (simp add: round_half_away_def)
qed

lemma round_half_away_range:
  assumes "0 \<le> x" "x \<le> 100"
  shows "0 \<le> round_half_away x \<and> round_half_away x \<le> 100"
proof -
  have "0 \<le> \<lfloor>x + 1 / 2\<rfloor>" using assms by linarith
  moreover have "\<lfloor>x + 1 / 2\<rfloor> \<le> 100" using assms by linarith
  ultimately show ?thesis using assms by (simp add: round_half_away_def)
qed

lemma wta_rescale_unit:
  "wta_rescale None = None"
  "0 \<le> v \<Longrightarrow> v \<le> 100 \<Longrightarrow> null_or_unit (wta_rescale (Some v))"
  "v < 0 \<or> 100 < v \<Longrightarrow> \<not> null_or_unit (wta_rescale (Some v))"
  by (auto simp: wta_rescale_def null_or_unit_def)

lemma WOULD_TAKE_AGAIN_NUM_unit:
  assumes "0 \<le> w" "w \<le> 100"
  shows "null_or_unit (WOULD_TAKE_AGAIN_NUM (Some w))"
  using round_half_away_range [OF assms]
  by (simp add: WOULD_TAKE_AGAIN_NUM_def TO_NUMBER_def null_or_unit_def)

lemma on_column_map:
  "on_column name f row = map (\<lambda>(c, x). if c = name then (c, f x) else (c, x)) row"
proof -
  have "map (\<lambda>(c, x). if c = name then (c, f x) else (c, x)) row = row"
    if "name \<notin> set (map fst row)"
    using that by (induction row) auto
  then show ?thesis by (auto simp: on_column_def)
qed

lemma clean_and_store_data_append:
  "clean_and_store_data (pre @ post) = clean_and_store_data pre @ clean_and_store_data post"
  by (simp add: clean_and_store_data_def on_column_map)

lemma clean_and_store_data_Nil: "clean_and_store_data [] = []"
  by (simp add: clean_and_store_data_def on_column_map)

lemma clean_and_store_data_Cons:
  "clean_and_store_data ((c, x) # post) =
     (py_upper c,
      if py_upper c \<in> set [''OVERALL_RATING'', ''RMP_RATING'', ''DIFFICULTY'']
      then map_option Number (to_numeric_cell (replace_null_like x))
      else if py_upper c = ''WOULD TAKE AGAIN''
      then map_option Number (wta_rescale (to_numeric_cell (replace_null_like x)))
      else replace_null_like x) # clean_and_store_data post"
  by (simp add: clean_and_store_data_def on_column_map)

lemma null_like_not_numeric:
  "to_numeric s = Some v \<Longrightarrow> replace_null_like (Some (Text s)) = Some (Text s)"
  by (auto simp: replace_null_like_def parse_defs)

lemma to_numeric_null_like:
  "to_numeric_cell (replace_null_like (Some (Text s))) = to_numeric s"
proof (cases "to_numeric s")
  case None
  then show ?thesis by (auto simp: replace_null_like_def to_numeric_cell_def)
next
  case (Some v)
  then show ?thesis by (simp add: null_like_not_numeric to_numeric_cell_def)
qed

text \<open>
  Claim C2, as amended. Where \<open>clean_and_store_data\<close> normalizes would-take-again (the
  column named \<open>WOULD TAKE AGAIN\<close>), and in the standardization query, a cell that is
  null or does not parse is normalized to null, and a cell whose parsed value lies
  between 0 and 100 is normalized to a number in the closed interval from 0 to 1. A
  parsed value below 0 or above 100 is normalized by the Python rule to a number outside
  that interval: the rule divides by 100 and does not clamp.
\<close>

theorem would_take_again_unit_interval_percent:
  "(py_upper c = ''WOULD TAKE AGAIN'' \<longrightarrow>
      clean_and_store_data (pre @ (c, Some (Text s)) # post) =
        clean_and_store_data pre
        @ (''WOULD TAKE AGAIN'', map_option Number (wta_rescale (to_numeric s)))
        # clean_and_store_data post
      \<and> clean_and_store_data (pre @ (c, None) # post) =
        clean_and_store_data pre @ (''WOULD TAKE AGAIN'', None) # clean_and_store_data post)
   \<and> (\<forall>v. to_numeric s = Some v \<and> 0 \<le> v \<and> v \<le> 100 \<longrightarrow>
        null_or_unit (wta_rescale (to_numeric s)))
   \<and> (\<forall>v. to_numeric s = Some v \<and> (v < 0 \<or> 100 < v) \<longrightarrow>
        \<not> null_or_unit (wta_rescale (to_numeric s)))
   \<and> (to_numeric s = None \<longrightarrow> wta_rescale (to_numeric s) = None)
   \<and> (0 \<le> w \<and> w \<le> 100 \<longrightarrow> null_or_unit (WOULD_TAKE_AGAIN_NUM (Some w)))
   \<and> WOULD_TAKE_AGAIN_NUM None = None"
proof -
  have row: "clean_and_store_data (pre @ (c, Some (Text s)) # post) =
        clean_and_store_data pre
        @ (''WOULD TAKE AGAIN'', map_option Number (wta_rescale (to_numeric s)))
        # clean_and_store_data post"
    "clean_and_store_data (pre @ (c, None) # post) =
        clean_and_store_data pre @ (''WOULD TAKE AGAIN'', None) # clean_and_store_data post"
    if "py_upper c = ''WOULD TAKE AGAIN''"
  proof -
    show "clean_and_store_data (pre @ (c, Some (Text s)) # post) =
        clean_and_store_data pre
        @ (''WOULD TAKE AGAIN'', map_option Number (wta_rescale (to_numeric s)))
        # clean_and_store_data post"
      using that
      by (simp add: clean_and_store_data_append clean_and_store_data_Cons to_numeric_null_like)
    show "clean_and_store_data (pre @ (c, None) # post) =
        clean_and_store_data pre @ (''WOULD TAKE AGAIN'', None) # clean_and_store_data post"
      using that
      by (simp add: clean_and_store_data_append clean_and_store_data_Cons replace_null_like_def
          to_numeric_cell_def wta_rescale_def)
  qed
  show ?thesis
    using row wta_rescale_unit WOULD_TAKE_AGAIN_NUM_unit [of w]
    by (auto simp: WOULD_TAKE_AGAIN_NUM_def TO_NUMBER_def)
qed

theorem would_take_again_unit_interval_percent_witness:
  "py_upper ''would take again'' = ''WOULD TAKE AGAIN''
   \<and> to_numeric ''75'' = Some 75 \<and> (0::rat) \<le> 75 \<and> (75::rat) \<le> 100
   \<and> clean_and_store_data [(''would take again'', Some (Text ''75''))]
        = [(''WOULD TAKE AGAIN'', Some (Number (3 / 4)))]
   \<and> null_or_unit (Some (3 / 4))
   \<and> null_or_unit (WOULD_TAKE_AGAIN_NUM (Some 75))"
proof -
  have u: "py_upper ''would take again'' = ''WOULD TAKE AGAIN''" by code_simp
  have p: "to_numeric ''75'' = Some 75" by (simp add: parse_defs)
  show ?thesis
    using u p clean_and_store_data_Nil
      would_take_again_unit_interval_percent [of "''would take again''" "[]" "''75''" "[]" 75]
    by (simp add: wta_rescale_def)
qed

text \<open>
  The claim as stated, for every input, fails: the cell \<open>150\<close> is normalized to 1.5 by
  the Python rule and by the query.
\<close>

theorem would_take_again_unit_interval_counterexample:
  "clean_and_store_data [(''WOULD TAKE AGAIN'', Some (Text ''150''))]
     = [(''WOULD TAKE AGAIN'', Some (Number (3 / 2)))]
   \<and> \<not> null_or_unit (Some (3 / 2))
   \<and> \<not> null_or_unit (WOULD_TAKE_AGAIN_NUM (Some 150))"
proof -
  have u: "py_upper ''WOULD TAKE AGAIN'' = ''WOULD TAKE AGAIN''" by code_simp
  have p: "to_numeric ''150'' = Some 150" by (simp add: parse_defs)
  have "round_half_away 150 = 150" using round_half_away_of_int [of 150] by simp
  then show ?thesis
    by (simp add: clean_and_store_data_Cons clean_and_store_data_Nil u p to_numeric_null_like
        wta_rescale_def null_or_unit_def WOULD_TAKE_AGAIN_NUM_def TO_NUMBER_def)
qed

lemma round_half_away_examples:
  "round_half_away (41 / 50) = 1" "round_half_away (39 / 10) = 4"
proof -
  have "\<lfloor>(41 / 50 :: rat) + 1 / 2\<rfloor> = 1" "\<lfloor>(39 / 10 :: rat) + 1 / 2\<rfloor> = 4"
    by linarith+
  then show "round_half_away (41 / 50) = 1" "round_half_away (39 / 10) = 4"
    by (simp_all add: round_half_away_def)
qed

text \<open>
  Claim C3 (a defect of the code). A would-take-again value of at most 1 is not passed
  through unchanged. The rule of \<open>clean_and_store_data\<close> would do so, but it is guarded
  by a column named \<open>WOULD TAKE AGAIN\<close>, and the column of the pipeline is
  \<open>WOULD_TAKE_AGAIN\<close>: the cell \<open>0.82\<close> is left as it is there. The rule of the query,
  which then normalizes the value, rounds it with \<open>TO_NUMBER\<close> first: 0.82 becomes 1.
\<close>

theorem would_take_again_fraction_rounded:
  "clean_and_store_data [(''WOULD_TAKE_AGAIN'', Some (Text ''0.82''))]
     = [(''WOULD_TAKE_AGAIN'', Some (Text ''0.82''))]
   \<and> clean_and_store_data [(''WOULD TAKE AGAIN'', Some (Text ''0.82''))]
     = [(''WOULD TAKE AGAIN'', Some (Number (82 / 100)))]
   \<and> to_numeric ''0.82'' = Some (82 / 100)
   \<and> STD_WOULD_TAKE_AGAIN
        (final_select ((example_row ''Doe'' None)\<lparr>WOULD_TAKE_AGAIN := Some (82 / 100)\<rparr>))
      = Some 1"
proof -
  have u: "py_upper ''WOULD TAKE AGAIN'' = ''WOULD TAKE AGAIN''"
    "py_upper ''WOULD_TAKE_AGAIN'' = ''WOULD_TAKE_AGAIN''" by code_simp+
  have p: "to_numeric ''0.82'' = Some (82 / 100)" by (simp add: parse_defs)
  have untouched: "clean_and_store_data [(''WOULD_TAKE_AGAIN'', Some (Text ''0.82''))]
     = [(''WOULD_TAKE_AGAIN'', Some (Text ''0.82''))]"
    by (simp add: clean_and_store_data_Cons clean_and_store_data_Nil u replace_null_like_def)
  have rule: "clean_and_store_data [(''WOULD TAKE AGAIN'', Some (Text ''0.82''))]
     = [(''WOULD TAKE AGAIN'', Some (Number (82 / 100)))]"
    by (simp add: clean_and_store_data_Cons clean_and_store_data_Nil u p to_numeric_null_like
        wta_rescale_def)
  have query: "STD_WOULD_TAKE_AGAIN
        (final_select ((example_row ''Doe'' None)\<lparr>WOULD_TAKE_AGAIN := Some (82 / 100)\<rparr>))
      = Some 1"
    by (simp add: final_select_def example_row_def WOULD_TAKE_AGAIN_NUM_def TO_NUMBER_def
        round_half_away_examples)
  from untouched rule p query show ?thesis by (intro conjI)
qed

text \<open>
  Claim C5 (a defect of the code). The query applies the scale transformer to
  \<open>TO_NUMBER(SCRAPED_OVERALL_RATING)\<close>, which has no fractional digits: the rating 3.9
  is rounded to 4 and normalized to 5.5, where \<open>(3.9 - 1) * (6/4) + 1\<close> is 5.35.
\<close>

theorem normalized_rating_rounded_first:
  "STD_SCRAPED_OVERALL_RATING
     (final_select ((example_row ''Doe'' None)\<lparr>SCRAPED_OVERALL_RATING := Some (39 / 10)\<rparr>))
     = Some 4
   \<and> STD_NORMALIZED_RMP_RATING
     (final_select ((example_row ''Doe'' None)\<lparr>SCRAPED_OVERALL_RATING := Some (39 / 10)\<rparr>))
     = Some (11 / 2)
   \<and> NORMALIZED_RMP_RATING (Some (39 / 10)) = Some (535 / 100)"
  by (simp add: final_select_def example_row_def TO_NUMBER_def NORMALIZED_RMP_RATING_def
      round_half_away_examples)

section \<open>Properties of the field extractor\<close>

lemma strip_prefix_Some: "strip_prefix p s = Some r \<longleftrightarrow> s = p @ r"
  by (induction p s rule: strip_prefix.induct) auto

lemma strip_prefix_Some': "Some r = strip_prefix p s \<longleftrightarrow> s = p @ r"
  by (metis strip_prefix_Some)

lemma search_Some: "search m s = Some r \<Longrightarrow> \<exists>pre t. s = pre @ t \<and> m t = Some r"
proof (induction s)
  case Nil
  then show ?case by auto
next
  case (Cons c cs)
  show ?case
  proof (cases "m (c # cs)")
    case None
    with Cons obtain pre t where "cs = pre @ t" "m t = Some r" by auto
    then have "c # cs = (c # pre) @ t \<and> m t = Some r" by simp
    then show ?thesis by blast
  next
    case (Some a)
    with Cons.prems have "c # cs = [] @ (c # cs) \<and> m (c # cs) = Some r" by simp
    then show ?thesis by blast
  qed
qed

lemma first_of_Some: "first_of xs = Some x \<Longrightarrow> x \<in> set xs"
  by (cases xs) (auto simp: first_of_def)

lemma plus_splits_mem:
  assumes "(p, r) \<in> set (plus_splits P s)"
  shows "p \<noteq> [] \<and> list_all P p \<and> s = p @ r"
proof -
  from assms have "(p, r) \<in> (\<lambda>k. (take k s, drop k s)) ` {1 ..< Suc (length (takeWhile P s))}"
    by (simp add: plus_splits_def del: upt_Suc)
  then obtain k where "k \<in> {1 ..< Suc (length (takeWhile P s))}" "(p, r) = (take k s, drop k s)"
    by (rule imageE)
  then have k: "1 \<le> k" "k \<le> length (takeWhile P s)" "p = take k s" "r = drop k s"
    by simp_all
  have "length (takeWhile P s) \<le> length s" by (rule length_takeWhile_le)
  with k have ne: "p \<noteq> []" by auto
  have "take k s = take k (takeWhile P s @ dropWhile P s)" by simp
  also have "\<dots> = take k (takeWhile P s)" using k(2) by (simp del: takeWhile_dropWhile_id)
  finally have "set p \<subseteq> set (takeWhile P s)" using k(3) by (metis set_take_subset)
  then have "list_all P p" by (auto simp: list_all_iff dest: set_takeWhileD)
  with ne k show ?thesis by simp
qed

lemma star_splits_mem:
  assumes "(p, r) \<in> set (star_splits P s)"
  shows "list_all P p \<and> s = p @ r"
proof -
  from assms have "(p, r) \<in> (\<lambda>k. (take k s, drop k s)) ` {0 ..< Suc (length (takeWhile P s))}"
    by (simp add: star_splits_def del: upt_Suc)
  then obtain k where "k \<in> {0 ..< Suc (length (takeWhile P s))}" "(p, r) = (take k s, drop k s)"
    by (rule imageE)
  then have k: "k \<le> length (takeWhile P s)" "p = take k s" "r = drop k s"
    by simp_all
  have "take k s = take k (takeWhile P s @ dropWhile P s)" by simp
  also have "\<dots> = take k (takeWhile P s)" using k(1) by (simp del: takeWhile_dropWhile_id)
  finally have "set p \<subseteq> set (takeWhile P s)" using k(2) by (metis set_take_subset)
  then have "list_all P p" by (auto simp: list_all_iff dest: set_takeWhileD)
  with k show ?thesis by simp
qed

lemma rmp_at_digits:
  assumes "rmp_at s = Some d"
  shows "d \<noteq> [] \<and> list_all is_digit d"
proof -
  from assms obtain r1 r2 where "(d, r2) \<in> set (plus_splits is_digit r1)"
    by (auto simp: rmp_at_def split: list.splits if_splits dest!: first_of_Some)
  then show ?thesis by (auto dest: plus_splits_mem)
qed

lemma crs_at_shape:
  assumes "crs_at s = Some (w, d)"
  shows "\<exists>anchor s1 s2 rest. s = anchor @ s1 @ w @ s2 @ d @ rest
           \<and> (anchor = ''L24'' \<or> anchor = ''E81'')
           \<and> s1 \<noteq> [] \<and> list_all is_sep s1 \<and> w \<noteq> [] \<and> list_all is_word w
           \<and> s2 \<noteq> [] \<and> list_all is_sep s2 \<and> d \<noteq> [] \<and> list_all is_digit d"
proof -
  from first_of_Some [OF assms [unfolded crs_at_def]]
  obtain r0 s1 r1 r2 s2 r3 r4 where
    r0: "s = ''L24'' @ r0 \<or> s = ''E81'' @ r0" and
    p1: "(s1, r1) \<in> set (plus_splits is_sep r0)" and
    p2: "(w, r2) \<in> set (plus_splits is_word r1)" and
    p3: "(s2, r3) \<in> set (plus_splits is_sep r2)" and
    p4: "(d, r4) \<in> set (plus_splits is_digit r3)"
    by (auto simp: strip_prefix_Some strip_prefix_Some')
  from r0 obtain anchor where a: "anchor = ''L24'' \<or> anchor = ''E81''" "s = anchor @ r0"
    by blast
  with plus_splits_mem [OF p1] plus_splits_mem [OF p2] plus_splits_mem [OF p3]
    plus_splits_mem [OF p4]
  have "s = anchor @ s1 @ w @ s2 @ d @ r4
           \<and> (anchor = ''L24'' \<or> anchor = ''E81'')
           \<and> s1 \<noteq> [] \<and> list_all is_sep s1 \<and> w \<noteq> [] \<and> list_all is_word w
           \<and> s2 \<noteq> [] \<and> list_all is_sep s2 \<and> d \<noteq> [] \<and> list_all is_digit d"
    by simp
  then show ?thesis by blast
qed

lemma rate_at_shape:
  assumes "rate_at s = Some g"
  shows "\<exists>d1 d2. g = d1 @ ''.'' @ d2 \<and> d1 \<noteq> [] \<and> list_all is_digit d1
           \<and> d2 \<noteq> [] \<and> list_all is_digit d2"
proof -
  from assms obtain r where "strip_prefix ''Overall Rating:'' s = Some r"
    and f: "first_of
            [d1 @ ''.'' @ d2.
               (ws, r1) \<leftarrow> star_splits is_space r,
               (d1, r2) \<leftarrow> plus_splits is_digit r1,
               r3 \<leftarrow> (case r2 of [] \<Rightarrow> [] | x # xs \<Rightarrow> if x = CHR ''.'' then [xs] else []),
               (d2, r4) \<leftarrow> plus_splits is_digit r3] = Some g"
    by (auto simp: rate_at_def split: option.splits)
  from first_of_Some [OF f] obtain d1 d2 r1 r2 r3 r4 where
    "g = d1 @ ''.'' @ d2" "(d1, r2) \<in> set (plus_splits is_digit r1)"
    "(d2, r4) \<in> set (plus_splits is_digit r3)"
    by (auto split: list.splits if_splits)
  then show ?thesis by (auto dest: plus_splits_mem)
qed

lemma digit_not_space: "is_digit c \<Longrightarrow> \<not> is_space c"
  by (auto simp: is_digit_def is_space_def)

lemma digit_not_sign: "is_digit c \<Longrightarrow> c \<noteq> CHR ''-'' \<and> c \<noteq> CHR ''+'' \<and> c \<noteq> CHR ''.''"
  by (auto simp: is_digit_def)

lemma py_strip_id:
  assumes "s \<noteq> []" "\<not> is_space (hd s)" "\<not> is_space (last s)"
  shows "py_strip s = s"
proof -
  from assms have "dropWhile is_space s = s" by (cases s) auto
  moreover from assms have "dropWhile is_space (rev s) = rev s"
    by (cases "rev s") (auto simp: last_rev [symmetric] hd_rev)
  ultimately show ?thesis by (simp add: py_strip_def)
qed

lemma py_int_digits:
  assumes "d \<noteq> []" "list_all is_digit d"
  shows "py_int d = Inr (int (digits_val d))"
proof -
  from assms have "is_digit (hd d)" "is_digit (last d)"
    by (auto simp: list_all_iff)
  then have "py_strip d = d" "hd d \<noteq> CHR ''-''" "hd d \<noteq> CHR ''+''"
    using assms(1) by (auto intro: py_strip_id dest: digit_not_space digit_not_sign)
  with assms show ?thesis
    by (cases d) (auto simp: py_int_def)
qed

lemma to_numeric_decimal:
  assumes "d1 \<noteq> []" "list_all is_digit d1" "d2 \<noteq> []" "list_all is_digit d2"
  shows "to_numeric (d1 @ ''.'' @ d2)
         = Some (of_nat (digits_val d1) + of_nat (digits_val d2) / 10 ^ length d2)"
proof -
  let ?s = "d1 @ ''.'' @ d2"
  from assms have hl: "is_digit (hd ?s)" "is_digit (last ?s)"
    by (auto simp: list_all_iff hd_append)
  have "py_strip ?s = ?s"
    by (rule py_strip_id) (use hl in \<open>auto dest: digit_not_space\<close>)
  with hl(1) have st: "py_strip ?s = ?s" "hd ?s \<noteq> CHR ''-''" "hd ?s \<noteq> CHR ''+''"
    by (auto dest: digit_not_sign)
  have tw: "takeWhile is_digit ?s = d1" "dropWhile is_digit ?s = ''.'' @ d2"
    using assms(2) by (auto simp: list_all_iff takeWhile_append2 dropWhile_append2 is_digit_def)
  have "unsigned_decimal ?s
         = Some (of_nat (digits_val d1) + of_nat (digits_val d2) / 10 ^ length d2)"
    unfolding unsigned_decimal_def tw using assms by (simp add: Let_def)
  with st show ?thesis
    by (cases ?s) (auto simp: to_numeric_def Let_def)
qed

lemma strip_prefix2:
  "strip_prefix [a, b] s = (if take 2 s = [a, b] then Some (drop 2 s) else None)"
proof (cases s)
  case Nil
  then show ?thesis by simp
next
  case (Cons c cs)
  then show ?thesis by (cases cs) auto
qed

lemma sem_m_eq:
  "sem_m s = (if season_year_prefix s then Some (take 2 s, take 4 (drop 2 s)) else None)"
  by (auto simp: sem_m_def strip_prefix2 first_of_def season_year_prefix_def)

lemma search_rmp_int:
  assumes "search rmp_at s = Some g"
  shows "py_int g = Inr (int (digits_val g))"
proof -
  from search_Some [OF assms] obtain t where "rmp_at t = Some g" by blast
  then show ?thesis using rmp_at_digits py_int_digits by blast
qed

lemma search_rate_float:
  assumes "search rate_at s = Some g"
  shows "\<exists>v. to_numeric g = Some v \<and> py_float g = Inr v"
proof -
  from search_Some [OF assms] obtain t where "rate_at t = Some g" by blast
  from rate_at_shape [OF this] obtain d1 d2 where
    "g = d1 @ ''.'' @ d2" "d1 \<noteq> []" "list_all is_digit d1" "d2 \<noteq> []" "list_all is_digit d2"
    by blast
  then show ?thesis using to_numeric_decimal [of d1 d2] by (simp add: py_float_def)
qed

lemma extract_eq:
  "extract_course_info_from_bytes pdf fn =
     Inr \<lparr>filename = py_strip fn,
          professor = (case search prof_at (py_strip fn) of Some g \<Rightarrow> g | None \<Rightarrow> ''Unknown''),
          semester = (case sem_m (py_strip fn) of Some (g1, g2) \<Rightarrow> g1 @ '' '' @ g2
                                                 | None \<Rightarrow> ''Unknown''),
          course_code = (case search crs_at (py_strip fn) of Some (g2, g3) \<Rightarrow> g2
                                                         | None \<Rightarrow> ''Unknown''),
          section_no = (case search crs_at (py_strip fn) of Some (g2, g3) \<Rightarrow> g3
                                                        | None \<Rightarrow> ''Unknown''),
          course_name = (case search name_at (pdf_text pdf) of Some g \<Rightarrow> py_strip g
                                                          | None \<Rightarrow> ''Unknown''),
          overall_rating = (case search rate_at (pdf_text pdf) of Some g \<Rightarrow> to_numeric g
                                                             | None \<Rightarrow> None),
          rmp_id = map_option (\<lambda>g. int (digits_val g)) (search rmp_at (py_strip fn))\<rparr>"
proof -
  have rid: "(case search rmp_at (py_strip fn) of Some g \<Rightarrow> map_sum id Some (py_int g)
                                                | None \<Rightarrow> Inr None)
             = Inr (map_option (\<lambda>g. int (digits_val g)) (search rmp_at (py_strip fn)))"
    by (cases "search rmp_at (py_strip fn)") (auto dest: search_rmp_int)
  have rat: "(case search rate_at (pdf_text pdf) of Some g \<Rightarrow> map_sum id Some (py_float g)
                                                   | None \<Rightarrow> Inr None)
             = Inr (case search rate_at (pdf_text pdf) of Some g \<Rightarrow> to_numeric g | None \<Rightarrow> None)"
    by (cases "search rate_at (pdf_text pdf)") (auto dest: search_rate_float)
  show ?thesis
    unfolding extract_course_info_from_bytes_def Let_def rid rat
    by (auto split: option.splits)
qed

lemma text_fields_empty:
  "name_at [] = None" "rate_at [] = None"
  by (simp_all add: name_at_def rate_at_def)

text \<open>
  Claim C6. For every outcome of reading the bytes and every filename the extractor
  returns a complete fragment and raises nothing: the conversions \<open>int\<close> and
  \<open>float\<close> are applied to captured groups on which they succeed. Every field whose
  pattern does not match has its default, and when the PDF cannot be read the text is
  empty and the course name and the rating have their defaults.
\<close>

theorem extractor_total_with_defaults:
  "\<exists>frag. extract_course_info_from_bytes pdf fn = Inr frag
     \<and> filename frag = py_strip fn
     \<and> (search prof_at (py_strip fn) = None \<longrightarrow> professor frag = ''Unknown'')
     \<and> (sem_m (py_strip fn) = None \<longrightarrow> semester frag = ''Unknown'')
     \<and> (search crs_at (py_strip fn) = None \<longrightarrow>
          course_code frag = ''Unknown'' \<and> section_no frag = ''Unknown'')
     \<and> (search rmp_at (py_strip fn) = None \<longrightarrow> rmp_id frag = None)
     \<and> (search name_at (pdf_text pdf) = None \<longrightarrow> course_name frag = ''Unknown'')
     \<and> (search rate_at (pdf_text pdf) = None \<longrightarrow> overall_rating frag = None)
     \<and> (\<forall>e. pdf = Inl e \<longrightarrow>
          pdf_text pdf = [] \<and> course_name frag = ''Unknown'' \<and> overall_rating frag = None)"
  by (auto simp: extract_eq text_fields_empty pdf_text_def)

theorem extractor_total_with_defaults_witness:
  "\<exists>frag. extract_course_info_from_bytes (Inl PdfException) ''notes.pdf'' = Inr frag
     \<and> filename frag = ''notes.pdf'' \<and> professor frag = ''Unknown''
     \<and> semester frag = ''Unknown'' \<and> course_code frag = ''Unknown''
     \<and> section_no frag = ''Unknown'' \<and> rmp_id frag = None
     \<and> course_name frag = ''Unknown'' \<and> overall_rating frag = None"
proof -
  have s: "py_strip ''notes.pdf'' = ''notes.pdf''"
    by (simp add: py_strip_def is_space_def)
  have n: "search prof_at ''notes.pdf'' = None" "sem_m ''notes.pdf'' = None"
    "search crs_at ''notes.pdf'' = None" "search rmp_at ''notes.pdf'' = None"
    by (simp_all add: prof_at_def sem_m_def crs_at_def rmp_at_def first_of_def)
  show ?thesis
    using extractor_total_with_defaults [of "Inl PdfException" "''notes.pdf''"] s n
    by auto
qed

text \<open>
  Claim C8, as amended. The filename is stripped of surrounding whitespace first. If the
  stripped filename starts with \<open>SP\<close> or \<open>FL\<close> immediately followed by four digits,
  the semester is the season code and the year joined by one blank; otherwise it is
  \<open>Unknown\<close>.
\<close>

theorem semester_after_strip:
  "\<exists>frag. extract_course_info_from_bytes pdf fn = Inr frag
     \<and> semester frag =
         (if season_year_prefix (py_strip fn)
          then take 2 (py_strip fn) @ '' '' @ take 4 (drop 2 (py_strip fn))
          else ''Unknown'')
     \<and> (\<forall>code year rest.
          py_strip fn = code @ year @ rest \<and> (code = ''SP'' \<or> code = ''FL'')
          \<and> length year = 4 \<and> list_all is_digit year
          \<longrightarrow> semester frag = code @ '' '' @ year)"
  by (auto simp: extract_eq sem_m_eq season_year_prefix_def)

theorem semester_after_strip_witness:
  "season_year_prefix (py_strip ''SP2025.L24.CS101.5.pdf'')
   \<and> (\<exists>frag. extract_course_info_from_bytes (Inr []) ''SP2025.L24.CS101.5.pdf'' = Inr frag
        \<and> semester frag = ''SP 2025'')"
proof -
  have s: "py_strip ''SP2025.L24.CS101.5.pdf'' = ''SP2025.L24.CS101.5.pdf''"
    by (simp add: py_strip_def is_space_def)
  have p: "season_year_prefix ''SP2025.L24.CS101.5.pdf''"
    by (simp add: season_year_prefix_def is_digit_def)
  show ?thesis
    using semester_after_strip [of "Inr []" "''SP2025.L24.CS101.5.pdf''"] s p by auto
qed

text \<open>
  For the filename as given the claim fails: a filename with a leading blank does not
  start with a season code, and its semester is not \<open>Unknown\<close>.
\<close>

theorem semester_raw_prefix_counterexample:
  "\<not> season_year_prefix '' SP2025.pdf''
   \<and> map_sum id semester (extract_course_info_from_bytes (Inr []) '' SP2025.pdf'')
       = Inr ''SP 2025''"
  by (simp add: extract_eq sem_m_eq season_year_prefix_def py_strip_def is_space_def is_digit_def)

section \<open>Course code and section; the rating page\<close>

lemma digits_not_Unknown: "list_all is_digit d \<Longrightarrow> d \<noteq> ''Unknown''"
  by (auto simp: is_digit_def)

lemma search_crs_shape:
  assumes "search crs_at s = Some (w, d)"
  shows "\<exists>pre anchor s1 s2 rest. s = pre @ anchor @ s1 @ w @ s2 @ d @ rest
           \<and> (anchor = ''L24'' \<or> anchor = ''E81'')
           \<and> s1 \<noteq> [] \<and> list_all is_sep s1 \<and> w \<noteq> [] \<and> list_all is_word w
           \<and> s2 \<noteq> [] \<and> list_all is_sep s2 \<and> d \<noteq> [] \<and> list_all is_digit d"
proof -
  from search_Some [OF assms] obtain pre t where t: "s = pre @ t" "crs_at t = Some (w, d)"
    by blast
  from crs_at_shape [OF t(2)] t(1) show ?thesis by blast
qed

text \<open>
  Claim C9, as amended. Course code and section come from one match of the anchor
  pattern in the stripped filename (an anchor \<open>L24\<close> or \<open>E81\<close>, separators, a word
  token, separators, a token of digits), or both are \<open>Unknown\<close>. A section
  \<open>Unknown\<close> comes with a course code \<open>Unknown\<close>; a section other than \<open>Unknown\<close>
  consists of digits only; a course code \<open>Unknown\<close> with such a section occurs only
  when the matched word token is itself the text \<open>Unknown\<close>.
\<close>

theorem course_code_section_joint:
  "\<exists>frag. extract_course_info_from_bytes pdf fn = Inr frag
     \<and> ((\<exists>w d pre anchor s1 s2 rest.
            search crs_at (py_strip fn) = Some (w, d)
            \<and> course_code frag = w \<and> section_no frag = d
            \<and> py_strip fn = pre @ anchor @ s1 @ w @ s2 @ d @ rest
            \<and> (anchor = ''L24'' \<or> anchor = ''E81'')
            \<and> s1 \<noteq> [] \<and> list_all is_sep s1 \<and> w \<noteq> [] \<and> list_all is_word w
            \<and> s2 \<noteq> [] \<and> list_all is_sep s2 \<and> d \<noteq> [] \<and> list_all is_digit d)
          \<or> (search crs_at (py_strip fn) = None
              \<and> course_code frag = ''Unknown'' \<and> section_no frag = ''Unknown''))
     \<and> (section_no frag = ''Unknown'' \<longrightarrow> course_code frag = ''Unknown'')
     \<and> (section_no frag \<noteq> ''Unknown'' \<longrightarrow>
          section_no frag \<noteq> [] \<and> list_all is_digit (section_no frag))
     \<and> (course_code frag = ''Unknown'' \<and> section_no frag \<noteq> ''Unknown'' \<longrightarrow>
          search crs_at (py_strip fn) = Some (''Unknown'', section_no frag))"
proof (cases "search crs_at (py_strip fn)")
  case None
  then show ?thesis by (simp add: extract_eq)
next
  case (Some p)
  obtain w d where p: "p = (w, d)" by (cases p)
  from search_crs_shape [OF Some [unfolded p]] obtain pre anchor s1 s2 rest where
    sh: "py_strip fn = pre @ anchor @ s1 @ w @ s2 @ d @ rest
           \<and> (anchor = ''L24'' \<or> anchor = ''E81'')
           \<and> s1 \<noteq> [] \<and> list_all is_sep s1 \<and> w \<noteq> [] \<and> list_all is_word w
           \<and> s2 \<noteq> [] \<and> list_all is_sep s2 \<and> d \<noteq> [] \<and> list_all is_digit d"
    by blast
  then have d: "d \<noteq> ''Unknown''" "d \<noteq> []" "list_all is_digit d"
    by (auto dest: digits_not_Unknown)
  have "\<exists>w' d' pre anchor s1 s2 rest.
            search crs_at (py_strip fn) = Some (w', d')
            \<and> w = w' \<and> d = d'
            \<and> py_strip fn = pre @ anchor @ s1 @ w' @ s2 @ d' @ rest
            \<and> (anchor = ''L24'' \<or> anchor = ''E81'')
            \<and> s1 \<noteq> [] \<and> list_all is_sep s1 \<and> w' \<noteq> [] \<and> list_all is_word w'
            \<and> s2 \<noteq> [] \<and> list_all is_sep s2 \<and> d' \<noteq> [] \<and> list_all is_digit d'"
    using sh Some p by blast
  with d Some p show ?thesis by (simp add: extract_eq)
qed

theorem course_code_section_joint_witness:
  "\<exists>frag. extract_course_info_from_bytes (Inr []) ''SP2025.L24.CS101.5.pdf'' = Inr frag
     \<and> course_code frag = ''CS101'' \<and> section_no frag = ''5''
     \<and> section_no frag \<noteq> ''Unknown'' \<and> list_all is_digit (section_no frag)"
proof -
  have s: "py_strip ''SP2025.L24.CS101.5.pdf'' = ''SP2025.L24.CS101.5.pdf''"
    by (simp add: py_strip_def is_space_def)
  have c: "search crs_at ''SP2025.L24.CS101.5.pdf'' = Some (''CS101'', ''5'')"
    by code_simp
  from course_code_section_joint [of "Inr []" "''SP2025.L24.CS101.5.pdf''"]
  obtain frag where f:
    "extract_course_info_from_bytes (Inr []) ''SP2025.L24.CS101.5.pdf'' = Inr frag"
    "section_no frag \<noteq> ''Unknown'' \<longrightarrow>
          section_no frag \<noteq> [] \<and> list_all is_digit (section_no frag)"
    by blast
  from f(1) have "course_code frag = ''CS101''" "section_no frag = ''5''"
    by (auto simp: extract_eq s c simp del: search.simps)
  with f show ?thesis by auto
qed

text \<open>
  The word token may be the text \<open>Unknown\<close>: then the fragment has the course code
  \<open>Unknown\<close> with the section 5.
\<close>

theorem unknown_code_known_section_counterexample:
  "map_sum id (\<lambda>frag. (course_code frag, section_no frag))
     (extract_course_info_from_bytes (Inr []) ''L24.Unknown.5.pdf'') = Inr (''Unknown'', ''5'')"
proof -
  have s: "py_strip ''L24.Unknown.5.pdf'' = ''L24.Unknown.5.pdf''"
    by (simp add: py_strip_def is_space_def)
  have c: "search crs_at ''L24.Unknown.5.pdf'' = Some (''Unknown'', ''5'')"
    by code_simp
  show ?thesis by (simp add: extract_eq s c del: search.simps)
qed

lemma replace_percent:
  "(if c \<in> set s then filter (\<lambda>x. x \<noteq> c) s else s) = filter (\<lambda>x. x \<noteq> c) s"
  by (induction s) auto

text \<open>
  Claim C10. In every rating fragment that \<open>scrape_professor_rating\<close> returns,
  would-take-again and difficulty are both null or both non-null. They are non-null
  exactly when the page has at least two feedback-number nodes, and are then the stripped
  texts of the first (without percent signs) and of the second; a page with one such
  node leaves both null.
\<close>

theorem feedback_fields_together:
  assumes "scrape_professor_rating rid response = Some info"
  shows "(would_take_again info = None \<longleftrightarrow> difficulty info = None)
     \<and> (\<exists>soup. response = Inr (200, soup)
          \<and> (would_take_again info \<noteq> None \<longleftrightarrow> 2 \<le> length (feedback_numbers soup))
          \<and> (2 \<le> length (feedback_numbers soup) \<longrightarrow>
                would_take_again info
                  = Some (filter (\<lambda>c. c \<noteq> CHR ''%'') (py_strip (feedback_numbers soup ! 0)))
                \<and> difficulty info = Some (py_strip (feedback_numbers soup ! 1)))
          \<and> (length (feedback_numbers soup) = 1 \<longrightarrow>
                would_take_again info = None \<and> difficulty info = None))"
proof -
  from assms obtain soup where r: "rid \<noteq> []" "response = Inr (200, soup)"
    by (auto simp: scrape_professor_rating_def split: if_splits sum.splits)
  show ?thesis
  proof (cases "2 \<le> length (feedback_numbers soup)")
    case True
    with assms r have "would_take_again info
                  = Some (filter (\<lambda>c. c \<noteq> CHR ''%'') (py_strip (feedback_numbers soup ! 0)))"
      "difficulty info = Some (py_strip (feedback_numbers soup ! 1))"
      by (auto simp: scrape_professor_rating_def Let_def replace_percent split: option.splits if_splits)
    with True r show ?thesis by simp
  next
    case False
    with assms r have "would_take_again info = None" "difficulty info = None"
      by (auto simp: scrape_professor_rating_def Let_def split: option.splits if_splits)
    with False r show ?thesis by simp
  qed
qed

theorem feedback_fields_together_witness:
  "\<exists>info. scrape_professor_rating ''7777''
       (Inr (200, \<lparr>rating_element = Some ''3.9'', feedback_numbers = [''75%'', ''2.1''],
                   tag_elements = [''Helpful'']\<rparr>)) = Some info
     \<and> would_take_again info = Some ''75'' \<and> difficulty info = Some ''2.1''"
proof -
  let ?p = "\<lparr>rating_element = Some ''3.9'', feedback_numbers = [''75%'', ''2.1''],
             tag_elements = [''Helpful'']\<rparr>"
  obtain info where i: "scrape_professor_rating ''7777'' (Inr (200, ?p)) = Some info"
    by (simp add: scrape_professor_rating_def Let_def)
  from feedback_fields_together [OF i]
  have "would_take_again info = Some (filter (\<lambda>c. c \<noteq> CHR ''%'') (py_strip ''75%''))"
    "difficulty info = Some (py_strip ''2.1'')"
    by auto
  then have "would_take_again info = Some ''75''" "difficulty info = Some ''2.1''"
    by (simp_all add: py_strip_def is_space_def)
  with i show ?thesis by blast
qed

section \<open>Properties of the cross-source merger\<close>

lemma set_matches:
  "set (case filter P csv of [] \<Rightarrow> [(f, None)] | ms \<Rightarrow> map (\<lambda>r. (f, g r)) ms)
     = (if \<forall>r\<in>set csv. \<not> P r then {(f, None)} else (\<lambda>r. (f, g r)) ` {r \<in> set csv. P r})"
proof (cases "filter P csv")
  case Nil
  then show ?thesis by (simp add: filter_empty_conv)
next
  case (Cons x xs)
  then have "x \<in> set (filter P csv)" by simp
  then have ne: "(\<forall>r\<in>set csv. \<not> P r) = False" by auto
  have s: "set (x # xs) = {r \<in> set csv. P r}" by (metis Cons set_filter)
  show ?thesis by (simp only: Cons list.case set_map s ne if_False)
qed

lemma in_merge_left:
  "(f, c) \<in> set (merge_left df csv) \<longleftrightarrow>
     f \<in> set df \<and>
     ((\<forall>r\<in>set csv. csv_course_code r \<noteq> course_code f) \<and> c = None
      \<or> (\<exists>r\<in>set csv. csv_course_code r = course_code f \<and> c = csv_rmp_id r))"
proof -
  have "set (merge_left df csv)
     = (\<Union>f\<in>set df. if \<forall>r\<in>set csv. \<not> csv_course_code r = course_code f then {(f, None)}
                      else (\<lambda>r. (f, csv_rmp_id r)) ` {r \<in> set csv. csv_course_code r = course_code f})"
    unfolding merge_left_def set_concat set_map image_image set_matches by simp
  then show ?thesis by (auto split: if_splits)
qed

lemma in_merge_rmp_ids:
  assumes "csv \<noteq> []"
  shows "e \<in> set (merge_rmp_ids df csv) \<longleftrightarrow>
    (\<exists>f\<in>set df. \<exists>r\<in>set csv. py_strip (csv_course_code r) = py_strip (course_code f)
            \<and> e = f\<lparr>course_code := py_strip (course_code f),
                    rmp_id := combine_first (csv_rmp_id r) (rmp_id f)\<rparr>)
    \<or> (\<exists>f\<in>set df. (\<forall>r\<in>set csv. py_strip (csv_course_code r) \<noteq> py_strip (course_code f))
            \<and> e = f\<lparr>course_code := py_strip (course_code f)\<rparr>)"
    (is "?L \<longleftrightarrow> ?A \<or> ?B")
proof -
  let ?df1 = "map (\<lambda>f. f\<lparr>course_code := py_strip (course_code f)\<rparr>) df"
  let ?csv1 = "map (\<lambda>r. r\<lparr>csv_course_code := py_strip (csv_course_code r)\<rparr>) csv"
  have L: "?L \<longleftrightarrow> (\<exists>f' c. (f', c) \<in> set (merge_left ?df1 ?csv1)
                        \<and> e = f'\<lparr>rmp_id := combine_first c (rmp_id f')\<rparr>)"
    using assms by (auto simp: merge_rmp_ids_def Let_def)
  show ?thesis
  proof
    assume ?L
    then obtain f' c where m: "(f', c) \<in> set (merge_left ?df1 ?csv1)"
      and e: "e = f'\<lparr>rmp_id := combine_first c (rmp_id f')\<rparr>"
      unfolding L by blast
    from m obtain f where f: "f \<in> set df" "f' = f\<lparr>course_code := py_strip (course_code f)\<rparr>"
      by (auto simp: in_merge_left)
    from m consider
      (none) "\<forall>r\<in>set ?csv1. csv_course_code r \<noteq> course_code f'" "c = None"
      | (some) r' where "r' \<in> set ?csv1" "csv_course_code r' = course_code f'" "c = csv_rmp_id r'"
      unfolding in_merge_left by blast
    then show "?A \<or> ?B"
    proof cases
      case none
      then have "\<forall>r\<in>set csv. py_strip (csv_course_code r) \<noteq> py_strip (course_code f)"
        using f(2) by auto
      moreover have "e = f\<lparr>course_code := py_strip (course_code f)\<rparr>"
        using e none(2) f(2) by (simp add: combine_first_def)
      ultimately have ?B using f(1) by blast
      then show ?thesis ..
    next
      case some
      then obtain r where r: "r \<in> set csv"
        "r' = r\<lparr>csv_course_code := py_strip (csv_course_code r)\<rparr>" by auto
      with some f(2) have "py_strip (csv_course_code r) = py_strip (course_code f)"
        "e = f\<lparr>course_code := py_strip (course_code f),
                    rmp_id := combine_first (csv_rmp_id r) (rmp_id f)\<rparr>"
        using e by simp_all
      with f(1) r(1) have ?A by blast
      then show ?thesis ..
    qed
  next
    assume "?A \<or> ?B"
    then show ?L
    proof
      assume ?A
      then obtain f r where fr: "f \<in> set df" "r \<in> set csv"
        "py_strip (csv_course_code r) = py_strip (course_code f)"
        "e = f\<lparr>course_code := py_strip (course_code f),
                    rmp_id := combine_first (csv_rmp_id r) (rmp_id f)\<rparr>" by blast
      let ?f' = "f\<lparr>course_code := py_strip (course_code f)\<rparr>"
      let ?r' = "r\<lparr>csv_course_code := py_strip (csv_course_code r)\<rparr>"
      have "?f' \<in> set ?df1" "?r' \<in> set ?csv1" using fr(1,2) by auto
      moreover have "csv_course_code ?r' = course_code ?f'" using fr(3) by simp
      ultimately have "(?f', csv_rmp_id ?r') \<in> set (merge_left ?df1 ?csv1)"
        unfolding in_merge_left by blast
      moreover have "e = ?f'\<lparr>rmp_id := combine_first (csv_rmp_id ?r') (rmp_id ?f')\<rparr>"
        using fr(4) by simp
      ultimately show ?L unfolding L by blast
    next
      assume ?B
      then obtain f where f: "f \<in> set df"
        "\<forall>r\<in>set csv. py_strip (csv_course_code r) \<noteq> py_strip (course_code f)"
        "e = f\<lparr>course_code := py_strip (course_code f)\<rparr>" by blast
      let ?f' = "f\<lparr>course_code := py_strip (course_code f)\<rparr>"
      have "?f' \<in> set ?df1" using f(1) by auto
      moreover have "\<forall>r\<in>set ?csv1. csv_course_code r \<noteq> course_code ?f'" using f(2) by auto
      ultimately have "(?f', None) \<in> set (merge_left ?df1 ?csv1)"
        unfolding in_merge_left by blast
      moreover have "e = ?f'\<lparr>rmp_id := combine_first None (rmp_id ?f')\<rparr>"
        using f(3) by (simp add: combine_first_def)
      ultimately show ?L unfolding L by blast
    qed
  qed
qed

text \<open>
  Claim C1, as amended. After the merge the id of the auxiliary table comes first: a
  merged record has the id of the matched auxiliary row whenever that id is non-null,
  also when the fragment had extracted an id of its own; the extracted id is kept only
  when no auxiliary row matches or the matched row has a null id. A row matches when its
  course code and that of the fragment are equal after both are stripped of surrounding
  whitespace, case-sensitively; a fragment with several matching rows yields one merged
  record for each. Without auxiliary rows the fragments pass through unchanged.
\<close>

theorem merge_csv_id_first:
  "merge_rmp_ids df [] = df
   \<and> (csv \<noteq> [] \<longrightarrow>
        (\<forall>e\<in>set (merge_rmp_ids df csv). \<exists>f\<in>set df.
            e = f\<lparr>course_code := py_strip (course_code f), rmp_id := rmp_id e\<rparr>
            \<and> ((\<exists>r\<in>set csv. py_strip (csv_course_code r) = py_strip (course_code f)
                   \<and> rmp_id e = (case csv_rmp_id r of Some v \<Rightarrow> Some v | None \<Rightarrow> rmp_id f))
                \<or> ((\<forall>r\<in>set csv. py_strip (csv_course_code r) \<noteq> py_strip (course_code f))
                    \<and> rmp_id e = rmp_id f)))
        \<and> (\<forall>f\<in>set df. \<forall>r\<in>set csv.
              py_strip (csv_course_code r) = py_strip (course_code f) \<longrightarrow>
              f\<lparr>course_code := py_strip (course_code f),
                rmp_id := (case csv_rmp_id r of Some v \<Rightarrow> Some v | None \<Rightarrow> rmp_id f)\<rparr>
                \<in> set (merge_rmp_ids df csv))
        \<and> (\<forall>f\<in>set df. (\<forall>r\<in>set csv. py_strip (csv_course_code r) \<noteq> py_strip (course_code f)) \<longrightarrow>
              f\<lparr>course_code := py_strip (course_code f)\<rparr> \<in> set (merge_rmp_ids df csv)))"
proof -
  have a: "merge_rmp_ids df [] = df" by (simp add: merge_rmp_ids_def)
  have b: "\<exists>f\<in>set df.
            e = f\<lparr>course_code := py_strip (course_code f), rmp_id := rmp_id e\<rparr>
            \<and> ((\<exists>r\<in>set csv. py_strip (csv_course_code r) = py_strip (course_code f)
                   \<and> rmp_id e = (case csv_rmp_id r of Some v \<Rightarrow> Some v | None \<Rightarrow> rmp_id f))
                \<or> ((\<forall>r\<in>set csv. py_strip (csv_course_code r) \<noteq> py_strip (course_code f))
                    \<and> rmp_id e = rmp_id f))"
    if ne: "csv \<noteq> []" and mem: "e \<in> set (merge_rmp_ids df csv)" for e
  proof -
    from mem consider
      (m) f r where "f \<in> set df" "r \<in> set csv"
        "py_strip (csv_course_code r) = py_strip (course_code f)"
        "e = f\<lparr>course_code := py_strip (course_code f),
                rmp_id := combine_first (csv_rmp_id r) (rmp_id f)\<rparr>"
      | (n) f where "f \<in> set df"
        "\<forall>r\<in>set csv. py_strip (csv_course_code r) \<noteq> py_strip (course_code f)"
        "e = f\<lparr>course_code := py_strip (course_code f)\<rparr>"
      unfolding in_merge_rmp_ids [OF ne] by blast
    then show ?thesis
    proof cases
      case m
      then have "e = f\<lparr>course_code := py_strip (course_code f), rmp_id := rmp_id e\<rparr>"
        "rmp_id e = (case csv_rmp_id r of Some v \<Rightarrow> Some v | None \<Rightarrow> rmp_id f)"
        by (simp_all add: combine_first_def)
      with m(1,2,3) show ?thesis by blast
    next
      case n
      then have "e = f\<lparr>course_code := py_strip (course_code f), rmp_id := rmp_id e\<rparr>"
        "rmp_id e = rmp_id f"
        by simp_all
      with n(1,2) show ?thesis by blast
    qed
  qed
  have c: "f\<lparr>course_code := py_strip (course_code f),
                rmp_id := (case csv_rmp_id r of Some v \<Rightarrow> Some v | None \<Rightarrow> rmp_id f)\<rparr>
                \<in> set (merge_rmp_ids df csv)"
    if "csv \<noteq> []" "f \<in> set df" "r \<in> set csv"
      "py_strip (csv_course_code r) = py_strip (course_code f)" for f r
    unfolding in_merge_rmp_ids [OF that(1)] combine_first_def using that by blast
  have d: "f\<lparr>course_code := py_strip (course_code f)\<rparr> \<in> set (merge_rmp_ids df csv)"
    if "csv \<noteq> []" "f \<in> set df"
      "\<forall>r\<in>set csv. py_strip (csv_course_code r) \<noteq> py_strip (course_code f)" for f
    unfolding in_merge_rmp_ids [OF that(1)] using that by blast
  show ?thesis using a b c d by blast
qed

theorem merge_csv_id_first_witness:
  "[\<lparr>csv_course_code = '' CS101'', csv_rmp_id = Some 222\<rparr>] \<noteq> []
   \<and> py_strip '' CS101'' = py_strip ''CS101 ''
   \<and> example_fragment ''CS101'' (Some 222)
        \<in> set (merge_rmp_ids [example_fragment ''CS101 '' None]
                  [\<lparr>csv_course_code = '' CS101'', csv_rmp_id = Some 222\<rparr>])"
proof -
  have s: "py_strip '' CS101'' = ''CS101''" "py_strip ''CS101 '' = ''CS101''"
    by (simp_all add: py_strip_def is_space_def)
  show ?thesis
    using merge_csv_id_first [of "[example_fragment ''CS101 '' None]"
        "[\<lparr>csv_course_code = '' CS101'', csv_rmp_id = Some 222\<rparr>]"] s
    by (simp add: example_fragment_def)
qed

text \<open>
  The claim as stated fails: a fragment that extracted the id 111 has the id 222 of the
  matching auxiliary row after the merge.
\<close>

theorem merge_keeps_extracted_id_counterexample:
  "rmp_id (example_fragment ''CS101'' (Some 111)) = Some 111
   \<and> map rmp_id (merge_rmp_ids [example_fragment ''CS101'' (Some 111)]
                    [\<lparr>csv_course_code = ''CS101'', csv_rmp_id = Some 222\<rparr>]) = [Some 222]"
  by (simp add: merge_rmp_ids_def merge_left_def combine_first_def py_strip_def is_space_def
      example_fragment_def)


section \<open>Properties of the duplicate resolver\<close>

lemma resolver_resolver_from: "resolver rows = resolver_from [] rows"
  by (simp add: resolver_def resolver_from_def normalized_data_def)

lemma ROW_NUMBER_1:
  "ROW_NUMBER e r l = Suc 0 \<longleftrightarrow>
     (\<forall>x\<in>set e. partition_key x = partition_key r \<longrightarrow> order_key r < order_key x)
     \<and> (\<forall>x\<in>set l. partition_key x = partition_key r \<longrightarrow> order_key r \<le> order_key x)"
  by (auto simp: ROW_NUMBER_def filter_empty_conv not_le not_less)

lemma resolver_from_Nil: "resolver_from e [] = []"
  by (simp add: resolver_from_def)

lemma resolver_from_Cons:
  "resolver_from e (r # l) =
     (if ROW_NUMBER e r l = Suc 0 then [r] else []) @ resolver_from (e @ [r]) l"
  by (simp add: resolver_from_def)

lemma resolver_from_mem:
  "x \<in> set (resolver_from e rows) \<Longrightarrow>
     x \<in> set rows \<and> (\<forall>y\<in>set e. partition_key y = partition_key x \<longrightarrow> order_key x < order_key y)"
proof (induction rows arbitrary: e)
  case Nil
  then show ?case by (simp add: resolver_from_Nil)
next
  case (Cons r l)
  from Cons.prems consider
    (here) "ROW_NUMBER e r l = Suc 0" "x = r" | (there) "x \<in> set (resolver_from (e @ [r]) l)"
    by (auto simp: resolver_from_Cons split: if_splits)
  then show ?case
  proof cases
    case here
    then show ?thesis by (simp add: ROW_NUMBER_1)
  next
    case there
    from Cons.IH [OF there] show ?thesis by auto
  qed
qed

lemma resolver_from_least:
  "x \<in> set (resolver_from e rows) \<Longrightarrow>
     \<forall>y\<in>set rows. partition_key y = partition_key x \<longrightarrow> order_key x \<le> order_key y"
proof (induction rows arbitrary: e)
  case Nil
  then show ?case by (simp add: resolver_from_Nil)
next
  case (Cons r l)
  from Cons.prems consider
    (here) "ROW_NUMBER e r l = Suc 0" "x = r" | (there) "x \<in> set (resolver_from (e @ [r]) l)"
    by (auto simp: resolver_from_Cons split: if_splits)
  then show ?case
  proof cases
    case here
    then show ?thesis by (simp add: ROW_NUMBER_1)
  next
    case there
    from resolver_from_mem [OF there]
    have "partition_key r = partition_key x \<longrightarrow> order_key x \<le> order_key r" by auto
    with Cons.IH [OF there] show ?thesis by auto
  qed
qed

lemma resolver_from_distinct: "distinct (map partition_key (resolver_from e rows))"
proof (induction rows arbitrary: e)
  case Nil
  then show ?case by (simp add: resolver_from_Nil)
next
  case (Cons r l)
  have nin: "partition_key r \<notin> partition_key ` set (resolver_from (e @ [r]) l)"
    if sel: "ROW_NUMBER e r l = Suc 0"
  proof
    assume "partition_key r \<in> partition_key ` set (resolver_from (e @ [r]) l)"
    then obtain x where x: "x \<in> set (resolver_from (e @ [r]) l)"
      and k: "partition_key x = partition_key r" by auto
    from resolver_from_mem [OF x] k have "x \<in> set l" "order_key x < order_key r" by auto
    moreover from sel k \<open>x \<in> set l\<close> have "order_key r \<le> order_key x"
      by (simp add: ROW_NUMBER_1)
    ultimately show False by simp
  qed
  show ?case
  proof (cases "ROW_NUMBER e r l = Suc 0")
    case True
    with nin Cons.IH [of "e @ [r]"] show ?thesis by (simp add: resolver_from_Cons)
  next
    case False
    with Cons.IH [of "e @ [r]"] show ?thesis by (simp add: resolver_from_Cons)
  qed
qed

lemma resolver_from_covers:
  "r \<in> set rows \<Longrightarrow>
     (\<exists>x\<in>set (resolver_from e rows). partition_key x = partition_key r \<and> order_key x \<le> order_key r)
     \<or> (\<exists>y\<in>set e. partition_key y = partition_key r \<and> order_key y \<le> order_key r)"
proof (induction rows arbitrary: e r)
  case Nil
  then show ?case by simp
next
  case (Cons a l)
  let ?R = "resolver_from e (a # l)"
  have sub: "set (resolver_from (e @ [a]) l) \<subseteq> set ?R"
    by (auto simp: resolver_from_Cons)
  have head: "(\<exists>x\<in>set ?R. partition_key x = partition_key a \<and> order_key x \<le> order_key a)
     \<or> (\<exists>y\<in>set e. partition_key y = partition_key a \<and> order_key y \<le> order_key a)"
  proof (cases "ROW_NUMBER e a l = Suc 0")
    case True
    then have "a \<in> set ?R" by (simp add: resolver_from_Cons)
    then show ?thesis by auto
  next
    case False
    then consider
      (e) y where "y \<in> set e" "partition_key y = partition_key a" "order_key y \<le> order_key a"
      | (l) y where "y \<in> set l" "partition_key y = partition_key a" "order_key y < order_key a"
      by (auto simp: ROW_NUMBER_1 not_le not_less)
    then show ?thesis
    proof cases
      case e
      then show ?thesis by blast
    next
      case l
      from Cons.IH [OF l(1), of "e @ [a]"] consider
        (x) x where "x \<in> set (resolver_from (e @ [a]) l)" "partition_key x = partition_key y"
          "order_key x \<le> order_key y"
        | (y') y' where "y' \<in> set (e @ [a])" "partition_key y' = partition_key y"
          "order_key y' \<le> order_key y"
        by blast
      then show ?thesis
      proof cases
        case x
        with l sub have "x \<in> set ?R" "partition_key x = partition_key a"
          "order_key x \<le> order_key a" by auto
        then show ?thesis by blast
      next
        case y'
        with l have "y' \<noteq> a" by auto
        with y' l have "y' \<in> set e" "partition_key y' = partition_key a"
          "order_key y' \<le> order_key a" by auto
        then show ?thesis by blast
      qed
    qed
  qed
  show ?case
  proof (cases "r = a")
    case True
    with head show ?thesis by simp
  next
    case False
    with Cons.prems have "r \<in> set l" by simp
    from Cons.IH [OF this, of "e @ [a]"] consider
      (x) x where "x \<in> set (resolver_from (e @ [a]) l)" "partition_key x = partition_key r"
        "order_key x \<le> order_key r"
      | (y') y' where "y' \<in> set (e @ [a])" "partition_key y' = partition_key r"
        "order_key y' \<le> order_key r"
      by blast
    then show ?thesis
    proof cases
      case x
      with sub show ?thesis by blast
    next
      case y'
      show ?thesis
      proof (cases "y' = a")
        case True
        from head show ?thesis
        proof
          assume "\<exists>x\<in>set ?R. partition_key x = partition_key a \<and> order_key x \<le> order_key a"
          then obtain x where "x \<in> set ?R" "partition_key x = partition_key a"
            "order_key x \<le> order_key a" by blast
          with y' True have "x \<in> set ?R" "partition_key x = partition_key r"
            "order_key x \<le> order_key r" by auto
          then show ?thesis by blast
        next
          assume "\<exists>y\<in>set e. partition_key y = partition_key a \<and> order_key y \<le> order_key a"
          then obtain y where "y \<in> set e" "partition_key y = partition_key a"
            "order_key y \<le> order_key a" by blast
          with y' True have "y \<in> set e" "partition_key y = partition_key r"
            "order_key y \<le> order_key r" by auto
          then show ?thesis by blast
        qed
      next
        case False
        with y' have "y' \<in> set e" by simp
        with y' show ?thesis by blast
      qed
    qed
  qed
qed

lemma resolver_from_distinct_keys:
  "distinct (map partition_key (e @ rows)) \<Longrightarrow> resolver_from e rows = rows"
proof (induction rows arbitrary: e)
  case Nil
  then show ?case by (simp add: resolver_from_Nil)
next
  case (Cons r l)
  have "partition_key x \<noteq> partition_key r" if "x \<in> set e \<union> set l" for x
  proof
    assume "partition_key x = partition_key r"
    with that have "partition_key r \<in> partition_key ` (set e \<union> set l)" by (metis imageI)
    with Cons.prems show False by auto
  qed
  then have "ROW_NUMBER e r l = Suc 0"
    by (simp add: ROW_NUMBER_1)
  moreover from Cons.prems have "distinct (map partition_key ((e @ [r]) @ l))" by simp
  from Cons.IH [OF this] have "resolver_from (e @ [r]) l = l" .
  ultimately show ?case by (simp add: resolver_from_Cons)
qed

lemma resolver_keys: "set (map partition_key (resolver rows)) = set (map partition_key rows)"
proof
  show "set (map partition_key (resolver rows)) \<subseteq> set (map partition_key rows)"
    using resolver_from_mem [of _ "[]" rows] by (auto simp: resolver_resolver_from)
  show "set (map partition_key rows) \<subseteq> set (map partition_key (resolver rows))"
  proof
    fix k assume "k \<in> set (map partition_key rows)"
    then obtain r where r: "r \<in> set rows" "k = partition_key r" by auto
    from resolver_from_covers [OF r(1), of "[]"] obtain x where
      "x \<in> set (resolver_from [] rows)" "partition_key x = partition_key r" by auto
    then have "partition_key r \<in> partition_key ` set (resolver rows)"
      unfolding resolver_resolver_from by (metis imageI)
    with r(2) show "k \<in> set (map partition_key (resolver rows))" by simp
  qed
qed

lemma order_key_rating:
  "order_key x \<le> order_key r \<Longrightarrow> OVERALL_RATING r \<noteq> None \<Longrightarrow> OVERALL_RATING x \<noteq> None"
  by (auto simp: order_key_def TO_NUMBER_def less_eq_prod_def split: if_splits)

lemma identity_key_final_select: "identity_key (final_select r) = partition_key r"
  by (simp add: identity_key_def final_select_def partition_key_def)

lemma is_space_blank: "is_space (CHR '' '')"
  by (simp add: is_space_def)

lemma py_strip_blank_only:
  assumes "list_all (\<lambda>c. is_space c \<longrightarrow> c = CHR '' '') s"
  shows "py_strip s = rev (dropWhile (\<lambda>c. c = CHR '' '') (rev (dropWhile (\<lambda>c. c = CHR '' '') s)))"
proof -
  have eq: "is_space c \<longleftrightarrow> c = CHR '' ''" if "c \<in> set s" for c
    using that assms is_space_blank by (auto simp: list_all_iff)
  have 1: "dropWhile is_space s = dropWhile (\<lambda>c. c = CHR '' '') s"
    by (rule dropWhile_cong) (simp_all add: eq)
  have "set (rev (dropWhile (\<lambda>c. c = CHR '' '') s)) \<subseteq> set s"
    by (auto dest: set_dropWhileD)
  then have 2: "dropWhile is_space (rev (dropWhile (\<lambda>c. c = CHR '' '') s))
        = dropWhile (\<lambda>c. c = CHR '' '') (rev (dropWhile (\<lambda>c. c = CHR '' '') s))"
    by (intro dropWhile_cong) (auto simp: eq)
  show ?thesis by (simp add: py_strip_def 1 2)
qed

lemma set_py_strip: "set (py_strip s) \<subseteq> set s"
  by (auto simp: py_strip_def dest!: set_dropWhileD)

lemma last_token_blank_only:
  assumes "list_all (\<lambda>c. is_space c \<longrightarrow> c = CHR '' '') s"
  shows "last_whitespace_token s = rev (takeWhile (\<lambda>c. c \<noteq> CHR '' '') (rev s))"
proof -
  have eq: "\<not> is_space c \<longleftrightarrow> c \<noteq> CHR '' ''" if "c \<in> set (rev s)" for c
    using that assms is_space_blank by (auto simp: list_all_iff)
  have "takeWhile (\<lambda>c. \<not> is_space c) (rev s) = takeWhile (\<lambda>c. c \<noteq> CHR '' '') (rev s)"
    by (rule takeWhile_cong) (simp_all add: eq)
  then show ?thesis by (simp add: last_whitespace_token_def)
qed

lemma spec_key_blank_only:
  assumes "blank_only (PROFESSOR r)" "blank_only (COURSE_CODE r)" "blank_only (SEMESTER r)"
    "blank_only (SECTION r)"
  shows "spec_identity_key r = partition_key r"
proof -
  have t: "map_option py_strip x = TRIM x" if "blank_only x" for x
    using that by (cases x) (auto simp: blank_only_def TRIM_def py_strip_blank_only)
  have "map_option (\<lambda>s. last_whitespace_token (py_strip s)) x = SPLIT_PART_LAST (TRIM x)"
    if b: "blank_only x" for x
  proof (cases x)
    case None
    then show ?thesis by (simp add: SPLIT_PART_LAST_def TRIM_def)
  next
    case (Some s)
    with b have s: "list_all (\<lambda>c. is_space c \<longrightarrow> c = CHR '' '') s" by (simp add: blank_only_def)
    with set_py_strip [of s] have "list_all (\<lambda>c. is_space c \<longrightarrow> c = CHR '' '') (py_strip s)"
      by (auto simp: list_all_iff)
    from last_token_blank_only [OF this] show ?thesis
      by (simp add: Some SPLIT_PART_LAST_def TRIM_def py_strip_blank_only [OF s])
  qed
  with t assms show ?thesis by (simp add: spec_identity_key_def partition_key_def)
qed

lemma order_key_rated_first:
  "OVERALL_RATING a \<noteq> None \<Longrightarrow> OVERALL_RATING b = None \<Longrightarrow> order_key a < order_key b"
  by (auto simp: order_key_def TO_NUMBER_def less_prod_def)

lemma resolver_pair:
  assumes "partition_key a = partition_key b" "OVERALL_RATING a \<noteq> None" "OVERALL_RATING b = None"
  shows "resolver [a, b] = [a]" "resolver [b, a] = [a]"
proof -
  from order_key_rated_first [OF assms(2,3)] have lt: "order_key a < order_key b" .
  then have "\<not> order_key b < order_key a" "\<not> order_key b \<le> order_key a" "order_key a \<le> order_key b"
    by auto
  with lt assms(1) show "resolver [a, b] = [a]" "resolver [b, a] = [a]"
    by (simp_all add: resolver_resolver_from resolver_from_Cons resolver_from_Nil ROW_NUMBER_1)
qed

lemma example_key:
  "partition_key (example_row ''Doe'' x) = (Some ''Doe'', Some ''CS101'', Some ''SP 2025'', Some ''1'')"
  "partition_key (example_row '' Jane A Doe '' x) = (Some ''Doe'', Some ''CS101'', Some ''SP 2025'', Some ''1'')"
  by (simp_all add: partition_key_def example_row_def TRIM_def SPLIT_PART_LAST_def)

text \<open>
  Claim C4, as amended. The standardized table has exactly one record for each identity
  group of the input, the identity key being the text after the last blank of the
  professor string trimmed of blanks, with the course code, the semester and the section
  trimmed of blanks (the blank is the space character; on fields whose only whitespace is
  the blank this is the key in the words of the specification). The record selected for a
  group has an in-document rating whenever some record of the group has one; of two
  records that share a key, one with such a rating and one without, the one with the
  rating is selected, in either input order.
\<close>

theorem one_record_per_identity_group:
  "distinct (map identity_key (standardization rows))
   \<and> set (map identity_key (standardization rows)) = set (map partition_key rows)
   \<and> set (resolver rows) \<subseteq> set rows
   \<and> (blank_only (PROFESSOR r) \<and> blank_only (COURSE_CODE r) \<and> blank_only (SEMESTER r)
        \<and> blank_only (SECTION r) \<longrightarrow> partition_key r = spec_identity_key r)
   \<and> (\<forall>x\<in>set (resolver rows). \<forall>y\<in>set rows.
         partition_key y = partition_key x \<and> OVERALL_RATING y \<noteq> None \<longrightarrow> OVERALL_RATING x \<noteq> None)
   \<and> (partition_key a = partition_key b \<and> OVERALL_RATING a \<noteq> None \<and> OVERALL_RATING b = None \<longrightarrow>
         standardization [a, b] = [final_select a] \<and> standardization [b, a] = [final_select a])"
proof -
  have k: "map identity_key (standardization rows) = map partition_key (resolver rows)"
    by (simp add: standardization_def identity_key_final_select)
  have 1: "distinct (map identity_key (standardization rows))"
    unfolding k resolver_resolver_from by (rule resolver_from_distinct)
  have 2: "set (map identity_key (standardization rows)) = set (map partition_key rows)"
    unfolding k by (rule resolver_keys)
  have 3: "set (resolver rows) \<subseteq> set rows"
    using resolver_from_mem [of _ "[]" rows] by (auto simp: resolver_resolver_from)
  have 4: "OVERALL_RATING x \<noteq> None"
    if "x \<in> set (resolver rows)" "y \<in> set rows" "partition_key y = partition_key x"
      "OVERALL_RATING y \<noteq> None" for x y
  proof -
    from resolver_from_least [of x "[]" rows] that have "order_key x \<le> order_key y"
      by (simp add: resolver_resolver_from)
    then show ?thesis using that(4) by (rule order_key_rating)
  qed
  have 5: "standardization [a, b] = [final_select a] \<and> standardization [b, a] = [final_select a]"
    if "partition_key a = partition_key b" "OVERALL_RATING a \<noteq> None" "OVERALL_RATING b = None"
    using resolver_pair [OF that] by (simp add: standardization_def)
  have 6: "blank_only (PROFESSOR r) \<and> blank_only (COURSE_CODE r) \<and> blank_only (SEMESTER r)
        \<and> blank_only (SECTION r) \<longrightarrow> partition_key r = spec_identity_key r"
    using spec_key_blank_only [of r] by simp
  have r4: "\<forall>x\<in>set (resolver rows). \<forall>y\<in>set rows.
         partition_key y = partition_key x \<and> OVERALL_RATING y \<noteq> None \<longrightarrow> OVERALL_RATING x \<noteq> None"
    using 4 by blast
  have r5: "partition_key a = partition_key b \<and> OVERALL_RATING a \<noteq> None \<and> OVERALL_RATING b = None \<longrightarrow>
         standardization [a, b] = [final_select a] \<and> standardization [b, a] = [final_select a]"
    using 5 by blast
  show ?thesis
    by (rule conjI [OF 1 conjI [OF 2 conjI [OF 3 conjI [OF 6 conjI [OF r4 r5]]]]])
qed

theorem one_record_per_identity_group_witness:
  "partition_key (example_row ''Doe'' (Some (9 / 2))) = partition_key (example_row '' Jane A Doe '' None)
   \<and> OVERALL_RATING (example_row ''Doe'' (Some (9 / 2))) \<noteq> None
   \<and> OVERALL_RATING (example_row '' Jane A Doe '' None) = None
   \<and> standardization [example_row ''Doe'' (Some (9 / 2)), example_row '' Jane A Doe '' None]
        = [final_select (example_row ''Doe'' (Some (9 / 2)))]
   \<and> standardization [example_row '' Jane A Doe '' None, example_row ''Doe'' (Some (9 / 2))]
        = [final_select (example_row ''Doe'' (Some (9 / 2)))]"
proof -
  have r: "OVERALL_RATING (example_row ''Doe'' (Some (9 / 2))) \<noteq> None"
    "OVERALL_RATING (example_row '' Jane A Doe '' None) = None"
    by (simp_all add: example_row_def)
  show ?thesis
    using one_record_per_identity_group [of _ _ "example_row ''Doe'' (Some (9 / 2))"
        "example_row '' Jane A Doe '' None"] r
    by (simp add: example_key)
qed

text \<open>
  With whitespace in the wider sense the claim fails: the professor strings
  \<open>Jane<TAB>Doe\<close> and \<open>Doe\<close> have the same last whitespace-separated token, and the
  query keeps both records, since it splits at blanks only.
\<close>

theorem whitespace_token_counterexample:
  "spec_identity_key (example_row (''Jane'' @ [CHR 0x09] @ ''Doe'') None)
     = spec_identity_key (example_row ''Doe'' (Some (9 / 2)))
   \<and> length (standardization [example_row (''Jane'' @ [CHR 0x09] @ ''Doe'') None,
                                example_row ''Doe'' (Some (9 / 2))]) = 2"
proof -
  have c: "spec_identity_key (example_row (''Jane'' @ [CHR 0x09] @ ''Doe'') None)
     = spec_identity_key (example_row ''Doe'' (Some (9 / 2)))"
    by (simp add: spec_identity_key_def example_row_def last_whitespace_token_def py_strip_def
        is_space_def)
  have k: "partition_key (example_row (''Jane'' @ [CHR 0x09] @ ''Doe'') None)
     \<noteq> partition_key (example_row ''Doe'' (Some (9 / 2)))"
    by (simp add: partition_key_def example_row_def TRIM_def SPLIT_PART_LAST_def)
  then have "distinct (map partition_key [example_row (''Jane'' @ [CHR 0x09] @ ''Doe'') None,
                                example_row ''Doe'' (Some (9 / 2))])" by simp
  from resolver_from_distinct_keys [of "[]", simplified, OF this] c show ?thesis
    by (simp add: standardization_def resolver_resolver_from)
qed

text \<open>
  Claim C7. The duplicate resolver is idempotent: the rows it selects from its own
  selection are that selection, and a table with one row for each identity group is
  returned unchanged.
\<close>

theorem resolver_idempotent:
  "resolver (resolver rows) = resolver rows
   \<and> (distinct (map partition_key rows) \<longrightarrow> resolver rows = rows)"
proof -
  have d: "resolver xs = xs" if "distinct (map partition_key xs)" for xs
    using resolver_from_distinct_keys [of "[]" xs] that by (simp add: resolver_resolver_from)
  have "distinct (map partition_key (resolver rows))"
    unfolding resolver_resolver_from by (rule resolver_from_distinct)
  from d [OF this] d [of rows] show ?thesis by blast
qed

theorem resolver_idempotent_witness:
  "distinct (map partition_key [example_row ''Doe'' None, example_row ''Roe'' None])
   \<and> resolver [example_row ''Doe'' None, example_row ''Roe'' None]
        = [example_row ''Doe'' None, example_row ''Roe'' None]"
proof -
  have d: "distinct (map partition_key [example_row ''Doe'' None, example_row ''Roe'' None])"
    by (simp add: partition_key_def example_row_def TRIM_def SPLIT_PART_LAST_def)
  with resolver_idempotent [of "[example_row ''Doe'' None, example_row ''Roe'' None]"]
  show ?thesis by blast
qed

end
